theory Spec2Isabelle
  imports Complex_Main "HOL-Library.Word"
begin

unbundle bit_operations_syntax

section \<open>JavaScript values and exceptions\<close>

text \<open>
  The demuxer (\<^verbatim>\<open>src/demux/mp4-demuxer.js\<close>) is JavaScript. Bytes of an
  \<^verbatim>\<open>ArrayBuffer\<close> are 8-bit words. A JavaScript number is modelled by its exact
  rational value together with the special values \<^verbatim>\<open>NaN\<close>, \<^verbatim>\<open>Infinity\<close> and
  \<^verbatim>\<open>-Infinity\<close>; \<^verbatim>\<open>undefined\<close> (an absent property or an array read out of
  range) is a value of its own. The rounding of doubles and the sign of zero are not
  modelled: the operations below compute the exact value. The exact value is the value of
  the double operation whenever the operands and the result are integers of magnitude at
  most \<open>2^53\<close>, as are all the integers that the parsers read (32-bit fields); past
  that range, and for quotients that are not integers, the double is the exact value
  rounded.
\<close>

type_synonym u8 = "8 word"

datatype js_error = RangeError | TypeError

datatype 'a outcome = Returns 'a | Throws js_error

definition andThen :: "'a outcome \<Rightarrow> ('a \<Rightarrow> 'b outcome) \<Rightarrow> 'b outcome" where
  "andThen m f = (case m of Throws e \<Rightarrow> Throws e | Returns x \<Rightarrow> f x)"

text \<open>
  \<open>Num x\<close> is a finite number, \<open>Inf True\<close> is \<^verbatim>\<open>Infinity\<close>, \<open>Inf False\<close> is
  \<^verbatim>\<open>-Infinity\<close>. In arithmetic \<^verbatim>\<open>undefined\<close> converts to \<^verbatim>\<open>NaN\<close>.
\<close>

datatype jsval = Num rat | Inf bool | NaN | Undefined

fun js_add :: "jsval \<Rightarrow> jsval \<Rightarrow> jsval" where
  "js_add (Num x) (Num y) = Num (x + y)"
| "js_add (Num x) (Inf s) = Inf s"
| "js_add (Inf s) (Num y) = Inf s"
| "js_add (Inf s) (Inf t) = (if s = t then Inf s else NaN)"
| "js_add _ _ = NaN"

fun js_sub :: "jsval \<Rightarrow> jsval \<Rightarrow> jsval" where
  "js_sub (Num x) (Num y) = Num (x - y)"
| "js_sub (Num x) (Inf s) = Inf (\<not> s)"
| "js_sub (Inf s) (Num y) = Inf s"
| "js_sub (Inf s) (Inf t) = (if s = t then NaN else Inf s)"
| "js_sub _ _ = NaN"

fun js_mul :: "jsval \<Rightarrow> jsval \<Rightarrow> jsval" where
  "js_mul (Num x) (Num y) = Num (x * y)"
| "js_mul (Num x) (Inf s) = (if x = 0 then NaN else Inf ((0 < x) = s))"
| "js_mul (Inf s) (Num y) = (if y = 0 then NaN else Inf ((0 < y) = s))"
| "js_mul (Inf s) (Inf t) = Inf (s = t)"
| "js_mul _ _ = NaN"

fun js_div :: "jsval \<Rightarrow> jsval \<Rightarrow> jsval" where
  "js_div (Num x) (Num y) =
     (if y = 0 then (if x = 0 then NaN else Inf (0 < x)) else Num (x / y))"
| "js_div (Num x) (Inf s) = Num 0"
| "js_div (Inf s) (Num y) = Inf ((0 \<le> y) = s)"
| "js_div _ _ = NaN"

text \<open>
  A value in the range where the arithmetic on integers is exact: a number of magnitude at
  most \<open>2^53\<close>, or not a finite number at all.
\<close>

definition exactInteger :: "jsval \<Rightarrow> bool" where
  "exactInteger v = (case v of Num q \<Rightarrow> \<bar>q\<bar> \<le> 2 ^ 53 | _ \<Rightarrow> True)"

text \<open>\<^verbatim>\<open>array[i]\<close> on an array of unsigned integers: \<^verbatim>\<open>undefined\<close> out of range.\<close>

definition jsNth :: "nat list \<Rightarrow> nat \<Rightarrow> jsval" where
  "jsNth xs i = (if i < length xs then Num (of_nat (xs ! i)) else Undefined)"

section \<open>Byte reader\<close>

text \<open>
  \<^verbatim>\<open>array[index]\<close> on a \<^verbatim>\<open>Uint8Array\<close>: the byte when the index is in range,
  \<^verbatim>\<open>undefined\<close> (here \<open>None\<close>) otherwise.
\<close>

definition byteAt :: "u8 list \<Rightarrow> int \<Rightarrow> u8 option" where
  "byteAt array index =
     (if 0 \<le> index \<and> index < int (length array) then Some (array ! nat index) else None)"

text \<open>The operand conversion of \<^verbatim>\<open><<\<close> and \<^verbatim>\<open>|\<close>: \<^verbatim>\<open>undefined\<close> becomes 0.\<close>

definition toInt32 :: "u8 option \<Rightarrow> 32 word" where
  "toInt32 b = (case b of None \<Rightarrow> 0 | Some x \<Rightarrow> ucast x)"

text \<open>
  \<^verbatim>\<open>ReadBig32\<close>: shifts and bitwise-or work on 32-bit integers and give a signed
  32-bit result.
\<close>

definition ReadBig32 :: "u8 list \<Rightarrow> int \<Rightarrow> int" where
  "ReadBig32 array index =
     sint (push_bit 24 (toInt32 (byteAt array index))
           OR push_bit 16 (toInt32 (byteAt array (index + 1)))
           OR push_bit 8 (toInt32 (byteAt array (index + 2)))
           OR toInt32 (byteAt array (index + 3)))"

section \<open>The static probe\<close>

record probeData =
  consumed :: int
  dataOffset :: int
  rawDataSize :: int
  infoOffset :: int
  hasAudioTrack :: bool
  hasVideoTrack :: bool

text \<open>The probe returns either \<^verbatim>\<open>{match: false}\<close> or a record with \<^verbatim>\<open>match: true\<close>.\<close>

datatype probe_result = Mismatch | Match (info: probeData)

fun match :: "probe_result \<Rightarrow> bool" where
  "match Mismatch = False"
| "match (Match r) = True"

definition probe :: "u8 list \<Rightarrow> probe_result" where
  "probe buffer =
     (let data = buffer;
          offset1 = ReadBig32 data 0
      in if byteAt data 4 \<noteq> Some 0x66 \<or> byteAt data 5 \<noteq> Some 0x74
            \<or> byteAt data 6 \<noteq> Some 0x79 \<or> byteAt data 7 \<noteq> Some 0x70
         then Mismatch
         else
           let hasAudio = False;
               hasVideo = True;
               offset2 = ReadBig32 data offset1;
               dataOffset = offset1 + offset2;
               size = ReadBig32 data dataOffset
           in Match \<lparr>consumed = dataOffset, dataOffset = dataOffset, rawDataSize = size,
                     infoOffset = dataOffset + size,
                     hasAudioTrack = hasAudio, hasVideoTrack = hasVideo\<rparr>)"

text \<open>
  A box occupying exactly the bytes \<open>bs\<close>: at least a header, whose size field (as
  \<^verbatim>\<open>ReadBig32\<close> reads it) is the number of bytes and whose type is \<open>fcc\<close>.
\<close>

definition isBox :: "u8 list \<Rightarrow> u8 list \<Rightarrow> bool" where
  "isBox fcc bs \<longleftrightarrow>
     8 \<le> length bs \<and> ReadBig32 bs 0 = int (length bs) \<and> take 4 (drop 4 bs) = fcc"

definition fcc_ftyp :: "u8 list" where
  "fcc_ftyp = [0x66, 0x74, 0x79, 0x70]"

definition fcc_moov :: "u8 list" where
  "fcc_moov = [0x6D, 0x6F, 0x6F, 0x76]"

section \<open>Sample tables\<close>

text \<open>
  The records the leaf-box parsers build. Every field read with \<^verbatim>\<open>getUint32\<close> is an
  unsigned 32-bit value, held as a natural number.
\<close>

record stscEntry =
  firstChk :: nat
  samPerChk :: nat
  samDesIndex :: nat

record stscDetail =
  stsc_entryCount :: nat
  stsc_entries :: "stscEntry list"

record stszDetail =
  sampleSize :: nat
  sampleCount :: nat
  samples :: "nat list"
  total :: nat

record stcoDetail =
  stco_entryCount :: nat
  stco_entries :: "nat list"

text \<open>One element of the per-chunk array \<^verbatim>\<open>chkEntris\<close>.\<close>

record chkEntry =
  samCount :: nat
  sdi :: nat

text \<open>
  One element of the flat sample table \<^verbatim>\<open>sam2chk\<close>. The timing fields are absent
  (\<^verbatim>\<open>undefined\<close>) until the timing resolver assigns them.
\<close>

record stscSamEntry =
  chkIndex :: nat
  indexInChk :: nat
  sam_offset :: jsval
  sam_size :: jsval
  dts :: jsval
  cts :: jsval
  pts :: jsval

section \<open>Sample-to-chunk resolver\<close>

text \<open>
  \<^verbatim>\<open>chkEntris\<close> is created by \<^verbatim>\<open>new Array(count)\<close>: \<open>count\<close> holes. A hole is
  \<open>None\<close>. The assignment \<^verbatim>\<open>chkEntris[j] = chkEntry\<close> overwrites an element in
  range, extends the array (with holes) when \<open>j\<close> is past its end, and leaves the
  array elements alone when \<open>j\<close> is negative (it only sets a property named \<^verbatim>\<open>"-1"\<close>).
\<close>

definition arraySet :: "'a option list \<Rightarrow> int \<Rightarrow> 'a \<Rightarrow> 'a option list" where
  "arraySet a j x =
     (if j < 0 then a
      else if nat j < length a then a[nat j := Some x]
      else a @ replicate (nat j - length a) None @ [Some x])"

text \<open>
  The first loop of \<^verbatim>\<open>_samDetails\<close>, \<open>i\<close> running from \<^verbatim>\<open>stsc.entryCount - 1\<close> down
  to 0 (the argument \<open>Suc i\<close> is the number of entries still to visit). Reading a field
  of \<^verbatim>\<open>stsc.entries[i]\<close> past the end of the array throws.
\<close>

fun fillChunks ::
  "stscEntry list \<Rightarrow> nat \<Rightarrow> nat \<Rightarrow> chkEntry option list \<Rightarrow> chkEntry option list outcome"
where
  "fillChunks es 0 lastChkCount chkEntris = Returns chkEntris"
| "fillChunks es (Suc i) lastChkCount chkEntris =
     (if i < length es then
        let beginChkCount = firstChk (es ! i);
            chkEntry = \<lparr>samCount = samPerChk (es ! i), sdi = samDesIndex (es ! i)\<rparr>
        in fillChunks es i beginChkCount
             (fold (\<lambda>j a. arraySet a j chkEntry)
                [int beginChkCount - 1 .. int lastChkCount - 2] chkEntris)
      else Throws TypeError)"

text \<open>
  The inner loop over the samples of chunk \<open>k\<close>; the first numeric argument counts the
  iterations left, \<open>inChk\<close> is the variable \<^verbatim>\<open>indexInChk\<close>. The accumulator is \<^verbatim>\<open>(sam2chk, sampleIndex)\<close>.
\<close>

fun chunkSamples ::
  "nat list \<Rightarrow> nat \<Rightarrow> nat \<Rightarrow> nat \<Rightarrow> jsval \<Rightarrow> stscSamEntry list \<times> nat
     \<Rightarrow> stscSamEntry list \<times> nat"
where
  "chunkSamples sizes k 0 inChk samOffset acc = acc"
| "chunkSamples sizes k (Suc n) inChk samOffset (sam2chk, sampleIndex) =
     (let stscSamEntry = \<lparr>chkIndex = k, indexInChk = inChk, sam_offset = samOffset,
                           sam_size = jsNth sizes sampleIndex,
                           dts = Undefined, cts = Undefined, pts = Undefined\<rparr>
      in chunkSamples sizes k n (Suc inChk) (js_add samOffset (sam_size stscSamEntry))
           (sam2chk @ [stscSamEntry], Suc sampleIndex))"

text \<open>
  The loop over the chunks. \<^verbatim>\<open>chkEntris[k].firstSamIndex = sampleIndex\<close> throws when
  \<^verbatim>\<open>chkEntris[k]\<close> is a hole; the field it sets is never read.
\<close>

fun walkChunks ::
  "chkEntry option list \<Rightarrow> nat list \<Rightarrow> nat list \<Rightarrow> nat \<Rightarrow> stscSamEntry list \<times> nat
     \<Rightarrow> (stscSamEntry list \<times> nat) outcome"
where
  "walkChunks [] offsets sizes k acc = Returns acc"
| "walkChunks (None # cs) offsets sizes k acc = Throws TypeError"
| "walkChunks (Some c # cs) offsets sizes k acc =
     walkChunks cs offsets sizes (Suc k)
       (chunkSamples sizes k (samCount c) 0 (jsNth offsets k) acc)"

text \<open>
  \<^verbatim>\<open>_samDetails\<close>. When the final comparison fails the function logs a warning and
  returns \<^verbatim>\<open>undefined\<close> (\<open>None\<close>).
\<close>

definition samDetails ::
  "stscDetail \<Rightarrow> stszDetail \<Rightarrow> stcoDetail \<Rightarrow> stscSamEntry list option outcome"
where
  "samDetails stsc stsz stco =
     (let count = stco_entryCount stco
      in andThen (fillChunks (stsc_entries stsc) (stsc_entryCount stsc) (count + 1)
                    (replicate count None))
           (\<lambda>chkEntris.
              andThen (walkChunks chkEntris (stco_entries stco) (samples stsz) 0 ([], 0))
                (\<lambda>(sam2chk, sampleIndex).
                   if sampleIndex = length sam2chk then Returns (Some sam2chk)
                   else Returns None)))"

text \<open>
  \<^verbatim>\<open>_samDetails(stsc, null, stco)\<close>, the call that \<^verbatim>\<open>parseChunks\<close> makes when no
  \<^verbatim>\<open>stsz\<close> box has been parsed. The first loop does not touch \<^verbatim>\<open>stsz\<close>. The chunk loop
  reads \<^verbatim>\<open>stsz.samples\<close> in the first iteration of its inner loop, which throws; a chunk
  without samples passes. When no chunk has a sample the table is empty and the final
  comparison is \<^verbatim>\<open>0 == 0\<close>.
\<close>

fun walkChunks_null :: "chkEntry option list \<Rightarrow> unit outcome" where
  "walkChunks_null [] = Returns ()"
| "walkChunks_null (None # cs) = Throws TypeError"
| "walkChunks_null (Some c # cs) =
     (if samCount c = 0 then walkChunks_null cs else Throws TypeError)"

definition samDetails_null :: "stscDetail \<Rightarrow> stcoDetail \<Rightarrow> stscSamEntry list option outcome"
where
  "samDetails_null stsc stco =
     (let count = stco_entryCount stco
      in andThen (fillChunks (stsc_entries stsc) (stsc_entryCount stsc) (count + 1)
                    (replicate count None))
           (\<lambda>chkEntris.
              andThen (walkChunks_null chkEntris) (\<lambda>_. Returns (Some []))))"

text \<open>
  The index of the first sample of chunk \<open>k\<close>: the value of \<^verbatim>\<open>sampleIndex\<close> when the
  chunk loop reaches \<open>k\<close> (the source stores it in \<^verbatim>\<open>chkEntris[k].firstSamIndex\<close>).
\<close>

definition chunkCount :: "chkEntry option \<Rightarrow> nat" where
  "chunkCount c = (case c of None \<Rightarrow> 0 | Some e \<Rightarrow> samCount e)"

definition firstSamIndex :: "chkEntry option list \<Rightarrow> nat \<Rightarrow> nat" where
  "firstSamIndex chkEntris k = sum_list (map chunkCount (take k chkEntris))"

text \<open>The file offsets of a resolved table (empty when there is none).\<close>

definition tableOffsets :: "stscSamEntry list option outcome \<Rightarrow> jsval list" where
  "tableOffsets r = (case r of Returns (Some t) \<Rightarrow> map sam_offset t | _ \<Rightarrow> [])"

text \<open>
  The run-length reading of \<^verbatim>\<open>stsc\<close> in the words of the format: entry \<open>i\<close> applies
  from chunk \<open>firstChk i\<close> up to chunk \<open>firstChk (i + 1) - 1\<close>, the last entry up to the
  last chunk \<open>lastChk\<close>. The result lists the samples per chunk, chunk after chunk.
\<close>

fun stscExpand :: "stscEntry list \<Rightarrow> nat \<Rightarrow> nat list" where
  "stscExpand [] lastChk = []"
| "stscExpand [e] lastChk = replicate (lastChk + 1 - firstChk e) (samPerChk e)"
| "stscExpand (e # e' # es) lastChk =
     replicate (firstChk e' - firstChk e) (samPerChk e) @ stscExpand (e' # es) lastChk"

text \<open>
  A sample-to-chunk table that covers the chunks \<open>1 .. count\<close>: the entries are in
  ascending order of first chunk, the first one starts at chunk 1 and none starts past
  the chunk after the last. Without chunks the table is empty.
\<close>

definition stscCovers :: "stscEntry list \<Rightarrow> nat \<Rightarrow> bool" where
  "stscCovers es count \<longleftrightarrow>
     sorted (map firstChk es) \<and>
     (if es = [] then count = 0 else firstChk (hd es) = 1 \<and> firstChk (last es) \<le> count + 1)"

text \<open>The number of records of a resolved table (\<open>None\<close> when there is none).\<close>

definition tableLength :: "stscSamEntry list option outcome \<Rightarrow> nat option" where
  "tableLength r = (case r of Returns (Some t) \<Rightarrow> Some (length t) | _ \<Rightarrow> None)"

text \<open>
  The tables of the multi-chunk scenario: two chunks of two samples, then chunks of one
  sample; five samples of 50 bytes. \<open>multi_stco\<close> has the four chunk offsets of the
  scenario, \<open>multi_stco3\<close> only the three chunks that five samples fill.
\<close>

definition multi_stsc :: stscDetail where
  "multi_stsc = \<lparr>stsc_entryCount = 2,
     stsc_entries = [\<lparr>firstChk = 1, samPerChk = 2, samDesIndex = 1\<rparr>,
                     \<lparr>firstChk = 3, samPerChk = 1, samDesIndex = 1\<rparr>]\<rparr>"

definition multi_stsz :: stszDetail where
  "multi_stsz = \<lparr>sampleSize = 0, sampleCount = 5, samples = [50, 50, 50, 50, 50], total = 250\<rparr>"

definition multi_stco :: stcoDetail where
  "multi_stco = \<lparr>stco_entryCount = 4, stco_entries = [100, 300, 500, 600]\<rparr>"

definition multi_stco3 :: stcoDetail where
  "multi_stco3 = \<lparr>stco_entryCount = 3, stco_entries = [100, 300, 500]\<rparr>"

section \<open>Views on the chunk\<close>

text \<open>
  \<^verbatim>\<open>new DataView(arrayBuffer, byteOffset, byteLength)\<close> throws a \<^verbatim>\<open>RangeError\<close> when
  the window does not fit in the buffer; the view is the window. The same holds for
  \<^verbatim>\<open>new Uint8Array(arrayBuffer, byteOffset, length)\<close> and for
  \<^verbatim>\<open>new Buffer(arrayBuffer, byteOffset, length)\<close>.
\<close>

definition newDataView :: "u8 list \<Rightarrow> nat \<Rightarrow> nat \<Rightarrow> u8 list outcome" where
  "newDataView arrayBuffer byteOffset byteLength =
     (if byteOffset + byteLength \<le> length arrayBuffer
      then Returns (take byteLength (drop byteOffset arrayBuffer))
      else Throws RangeError)"

definition newUint8Array :: "u8 list \<Rightarrow> nat \<Rightarrow> nat \<Rightarrow> u8 list outcome" where
  "newUint8Array arrayBuffer byteOffset len = newDataView arrayBuffer byteOffset len"

text \<open>
  \<^verbatim>\<open>ReadBoxName(dataview, offset)\<close> reads four bytes of the buffer underlying the view,
  at an offset counted from the start of that buffer.
\<close>

definition ReadBoxName :: "u8 list \<Rightarrow> nat \<Rightarrow> u8 list outcome" where
  "ReadBoxName arrayBuffer offset = newDataView arrayBuffer offset 4"

text \<open>
  The getters of a \<^verbatim>\<open>DataView\<close> throw a \<^verbatim>\<open>RangeError\<close> when the bytes to read are
  not all inside the view. The last argument of the multi-byte getters is their
  \<^verbatim>\<open>littleEndian\<close> flag.
\<close>

definition getUint8 :: "u8 list \<Rightarrow> nat \<Rightarrow> nat outcome" where
  "getUint8 v byteOffset =
     (if byteOffset < length v then Returns (unat (v ! byteOffset)) else Throws RangeError)"

definition getUint16 :: "u8 list \<Rightarrow> nat \<Rightarrow> bool \<Rightarrow> nat outcome" where
  "getUint16 v byteOffset littleEndian =
     (if byteOffset + 2 \<le> length v then
        Returns (if littleEndian
                 then unat (v ! byteOffset) + 256 * unat (v ! (byteOffset + 1))
                 else 256 * unat (v ! byteOffset) + unat (v ! (byteOffset + 1)))
      else Throws RangeError)"

definition getUint32 :: "u8 list \<Rightarrow> nat \<Rightarrow> bool \<Rightarrow> nat outcome" where
  "getUint32 v byteOffset littleEndian =
     (if byteOffset + 4 \<le> length v then
        Returns (if littleEndian
                 then unat (v ! byteOffset) + 256 * unat (v ! (byteOffset + 1))
                      + 65536 * unat (v ! (byteOffset + 2))
                      + 16777216 * unat (v ! (byteOffset + 3))
                 else 16777216 * unat (v ! byteOffset) + 65536 * unat (v ! (byteOffset + 1))
                      + 256 * unat (v ! (byteOffset + 2)) + unat (v ! (byteOffset + 3)))
      else Throws RangeError)"

section \<open>Leaf-box parsers of the sample tables\<close>

text \<open>
  Every parser takes the chunk, the offset of the box in it (\<open>dataOff\<close>, the
  parameter \<^verbatim>\<open>dataOffset\<close>) and the size of the box.
  \<open>le\<close> is the field \<^verbatim>\<open>_littleEndian\<close> of the demuxer (true on a little-endian
  host); the getters are called with \<^verbatim>\<open>!le\<close>. The version and flags are read (the
  reads may throw) and not used.
\<close>

record sttsEntry =
  stts_samCount :: nat
  samDelta :: nat

text \<open>
  \<^verbatim>\<open>_parseStts\<close> keeps the entry count in a local variable and never stores it in the
  record: the property \<^verbatim>\<open>entryCount\<close> of its result is absent (\<open>None\<close>).
\<close>

record sttsDetail =
  stts_entryCount :: "nat option"
  stts_entries :: "sttsEntry list"

text \<open>
  An edit-list entry. \<^verbatim>\<open>segDuration\<close> and \<^verbatim>\<open>mediaTime\<close> are set for version 0 only.
\<close>

record elstEntry =
  segDuration :: jsval
  mediaTime :: jsval
  mediaRateInt :: nat
  mediaRateFrac :: nat

record elstDetail =
  elst_entries :: "elstEntry list"

fun stscLoop ::
  "u8 list \<Rightarrow> bool \<Rightarrow> nat \<Rightarrow> nat \<Rightarrow> stscEntry list \<Rightarrow> stscEntry list outcome"
where
  "stscLoop v le 0 offset es = Returns es"
| "stscLoop v le (Suc n) offset es =
     andThen (getUint32 v offset (\<not> le)) (\<lambda>a.
     andThen (getUint32 v (offset + 4) (\<not> le)) (\<lambda>b.
     andThen (getUint32 v (offset + 8) (\<not> le)) (\<lambda>c.
       stscLoop v le n (offset + 12)
         (es @ [\<lparr>firstChk = a, samPerChk = b, samDesIndex = c\<rparr>]))))"

definition parseStsc :: "bool \<Rightarrow> u8 list \<Rightarrow> nat \<Rightarrow> nat \<Rightarrow> stscDetail outcome" where
  "parseStsc le arrayBuffer dataOff dataSize =
     andThen (newDataView arrayBuffer dataOff dataSize) (\<lambda>v.
     andThen (getUint8 v 8) (\<lambda>version.
     andThen (getUint32 v 8 (\<not> le)) (\<lambda>flag.
     andThen (getUint32 v 12 (\<not> le)) (\<lambda>entryCount.
     andThen (stscLoop v le entryCount 16 []) (\<lambda>es.
       Returns \<lparr>stsc_entryCount = entryCount, stsc_entries = es\<rparr>)))))"

text \<open>
  The loop of \<^verbatim>\<open>_parseStsz\<close> reads \<^verbatim>\<open>sampleCount\<close> sizes, each twice: once for the
  running total and once for the array. It does not look at \<^verbatim>\<open>sampleSize\<close>.
\<close>

fun stszLoop ::
  "u8 list \<Rightarrow> bool \<Rightarrow> nat \<Rightarrow> nat \<Rightarrow> nat list \<times> nat \<Rightarrow> (nat list \<times> nat) outcome"
where
  "stszLoop v le 0 offset acc = Returns acc"
| "stszLoop v le (Suc n) offset (sizes, filesize) =
     andThen (getUint32 v offset (\<not> le)) (\<lambda>sz.
     andThen (getUint32 v offset (\<not> le)) (\<lambda>pushed.
       stszLoop v le n (offset + 4) (sizes @ [pushed], filesize + sz)))"

definition parseStsz :: "bool \<Rightarrow> u8 list \<Rightarrow> nat \<Rightarrow> nat \<Rightarrow> stszDetail outcome" where
  "parseStsz le arrayBuffer dataOff dataSize =
     andThen (newDataView arrayBuffer dataOff dataSize) (\<lambda>v.
     andThen (getUint8 v 8) (\<lambda>version.
     andThen (getUint32 v 8 (\<not> le)) (\<lambda>flag.
     andThen (getUint32 v 12 (\<not> le)) (\<lambda>size0.
     andThen (getUint32 v 16 (\<not> le)) (\<lambda>count.
     andThen (stszLoop v le count 20 ([], 0)) (\<lambda>(sizes, filesize).
       Returns \<lparr>sampleSize = size0, sampleCount = count, samples = sizes,
                total = filesize\<rparr>))))))"

fun stcoLoop :: "u8 list \<Rightarrow> bool \<Rightarrow> nat \<Rightarrow> nat \<Rightarrow> nat list \<Rightarrow> nat list outcome" where
  "stcoLoop v le 0 offset es = Returns es"
| "stcoLoop v le (Suc n) offset es =
     andThen (getUint32 v offset (\<not> le)) (\<lambda>x. stcoLoop v le n (offset + 4) (es @ [x]))"

definition parseStco :: "bool \<Rightarrow> u8 list \<Rightarrow> nat \<Rightarrow> nat \<Rightarrow> stcoDetail outcome" where
  "parseStco le arrayBuffer dataOff dataSize =
     andThen (newDataView arrayBuffer dataOff dataSize) (\<lambda>v.
     andThen (getUint8 v 8) (\<lambda>version.
     andThen (getUint32 v 8 (\<not> le)) (\<lambda>flag.
     andThen (getUint32 v 12 (\<not> le)) (\<lambda>entryCount.
     andThen (stcoLoop v le entryCount 16 []) (\<lambda>es.
       Returns \<lparr>stco_entryCount = entryCount, stco_entries = es\<rparr>)))))"

fun sttsLoop ::
  "u8 list \<Rightarrow> bool \<Rightarrow> nat \<Rightarrow> nat \<Rightarrow> sttsEntry list \<Rightarrow> sttsEntry list outcome"
where
  "sttsLoop v le 0 offset es = Returns es"
| "sttsLoop v le (Suc n) offset es =
     andThen (getUint32 v offset (\<not> le)) (\<lambda>a.
     andThen (getUint32 v (offset + 4) (\<not> le)) (\<lambda>b.
       sttsLoop v le n (offset + 8) (es @ [\<lparr>stts_samCount = a, samDelta = b\<rparr>])))"

definition parseStts :: "bool \<Rightarrow> u8 list \<Rightarrow> nat \<Rightarrow> nat \<Rightarrow> sttsDetail outcome" where
  "parseStts le arrayBuffer dataOff dataSize =
     andThen (newDataView arrayBuffer dataOff dataSize) (\<lambda>v.
     andThen (getUint8 v 8) (\<lambda>version.
     andThen (getUint32 v 8 (\<not> le)) (\<lambda>flag.
     andThen (getUint32 v 12 (\<not> le)) (\<lambda>entrytsunt.
     andThen (sttsLoop v le entrytsunt 16 []) (\<lambda>es.
       Returns \<lparr>stts_entryCount = None, stts_entries = es\<rparr>)))))"

fun elstLoop ::
  "u8 list \<Rightarrow> bool \<Rightarrow> nat \<Rightarrow> nat \<Rightarrow> nat \<Rightarrow> elstEntry list \<Rightarrow> elstEntry list outcome"
where
  "elstLoop v le version 0 offset es = Returns es"
| "elstLoop v le version (Suc n) offset es =
     (if version = 0 then
        andThen (getUint32 v offset (\<not> le)) (\<lambda>d.
        andThen (getUint32 v (offset + 4) (\<not> le)) (\<lambda>t.
        andThen (getUint16 v (offset + 8) (\<not> le)) (\<lambda>ri.
        andThen (getUint16 v (offset + 8 + 2) (\<not> le)) (\<lambda>rf.
          elstLoop v le version n (offset + 8 + 4)
            (es @ [\<lparr>segDuration = Num (of_nat d), mediaTime = Num (of_nat t),
                     mediaRateInt = ri, mediaRateFrac = rf\<rparr>])))))
      else
        andThen (getUint16 v offset (\<not> le)) (\<lambda>ri.
        andThen (getUint16 v (offset + 2) (\<not> le)) (\<lambda>rf.
          elstLoop v le version n (offset + 4)
            (es @ [\<lparr>segDuration = Undefined, mediaTime = Undefined,
                     mediaRateInt = ri, mediaRateFrac = rf\<rparr>]))))"

definition parseElst :: "bool \<Rightarrow> u8 list \<Rightarrow> nat \<Rightarrow> nat \<Rightarrow> elstDetail outcome" where
  "parseElst le arrayBuffer dataOff dataSize =
     andThen (newDataView arrayBuffer dataOff dataSize) (\<lambda>v.
     andThen (getUint8 v 8) (\<lambda>version.
     andThen (getUint32 v 8 (\<not> le)) (\<lambda>flag.
     andThen (getUint32 v 12 (\<not> le)) (\<lambda>entryCount.
     andThen (elstLoop v le version entryCount 16 []) (\<lambda>es.
       Returns \<lparr>elst_entries = es\<rparr>)))))"

text \<open>
  Two \<^verbatim>\<open>stsz\<close> boxes with the non-zero \<^verbatim>\<open>sampleSize\<close> 7 and one sample: the first
  is the constant-size box of the format (the header and the two fields, 20 bytes), the
  second carries one explicit size, 9, after them. With them, the tables of a track of
  one chunk at offset 100 holding one sample.
\<close>

definition stsz_constant :: "u8 list" where
  "stsz_constant = [0, 0, 0, 20, 0x73, 0x74, 0x73, 0x7A, 0, 0, 0, 0, 0, 0, 0, 7, 0, 0, 0, 1]"

definition stsz_explicit :: "u8 list" where
  "stsz_explicit = [0, 0, 0, 24, 0x73, 0x74, 0x73, 0x7A, 0, 0, 0, 0, 0, 0, 0, 7, 0, 0, 0, 1,
                    0, 0, 0, 9]"

definition single_stsc :: stscDetail where
  "single_stsc = \<lparr>stsc_entryCount = 1,
     stsc_entries = [\<lparr>firstChk = 1, samPerChk = 1, samDesIndex = 1\<rparr>]\<rparr>"

definition single_stco :: stcoDetail where
  "single_stco = \<lparr>stco_entryCount = 1, stco_entries = [100]\<rparr>"

section \<open>The demuxer object\<close>

text \<open>
  A template literal is kept as its pieces, the fixed text and the interpolated values,
  so that no number has to be printed. A plain string is a single piece.
\<close>

datatype part = S string | V jsval

type_synonym message = "part list"

text \<open>
  Modelled from the spec: \<^verbatim>\<open>errnevent.js\<close>, which defines \<^verbatim>\<open>DemuxErrors\<close>, is not
  among the sources. The spec names the error kinds \<^verbatim>\<open>FORMAT_ERROR\<close>,
  \<^verbatim>\<open>CODEC_UNSUPPORTED\<close> and \<^verbatim>\<open>EXCEPTION\<close>; the demuxer only uses the first.
\<close>

datatype DemuxErrors = FORMAT_ERROR | CODEC_UNSUPPORTED | EXCEPTION

record frame_rate =
  fixed :: bool
  fps :: rat
  fps_num :: rat
  fps_den :: rat

text \<open>
  The result of \<^verbatim>\<open>SPSParser.parseSPS\<close>. The parser is an external collaborator
  (\<^verbatim>\<open>sps-parser.js\<close> is not among the sources): the functions below take it as a
  parameter. Sizes and ratios are pairs (width, height).
\<close>

record spsConfig =
  profile_string :: string
  level_string :: string
  bit_depth :: nat
  chroma_format :: nat
  chroma_format_string :: string
  frame_rate :: frame_rate
  sar_ratio :: "nat \<times> nat"
  codec_size :: "nat \<times> nat"
  present_size :: "nat \<times> nat"

text \<open>
  The video metadata object \<^verbatim>\<open>_videoMetadata\<close>. A property that has not been assigned
  is \<open>None\<close> or \<open>Undefined\<close>. No statement of the demuxer assigns
  \<^verbatim>\<open>timescale_mvhd\<close>; \<^verbatim>\<open>_parseStsd\<close> reads it.
\<close>

record videoMeta =
  meta_type :: "string option"
  meta_id :: "nat option"
  timescale :: jsval
  duration :: jsval
  timescale_mdhd :: jsval
  duration_mdhd :: jsval
  timescale_mvhd :: jsval
  avcc :: "u8 list option"
  codecWidth :: "nat option"
  codecHeight :: "nat option"
  presentWidth :: "nat option"
  presentHeight :: "nat option"
  profile :: "string option"
  level :: "string option"
  bitDepth :: "nat option"
  chromaFormat :: "nat option"
  sarRatio :: "(nat \<times> nat) option"
  frameRate :: "frame_rate option"
  refSampleDuration :: jsval
  codec :: "string option"

definition emptyMeta :: videoMeta where
  "emptyMeta = \<lparr>meta_type = None, meta_id = None, timescale = Undefined, duration = Undefined,
     timescale_mdhd = Undefined, duration_mdhd = Undefined, timescale_mvhd = Undefined,
     avcc = None, codecWidth = None, codecHeight = None, presentWidth = None,
     presentHeight = None, profile = None, level = None, bitDepth = None,
     chromaFormat = None, sarRatio = None, frameRate = None, refSampleDuration = Undefined,
     codec = None\<rparr>"

text \<open>
  The fields of \<^verbatim>\<open>MediaInfo\<close> that \<^verbatim>\<open>_parseStsd\<close> reads or writes. The class is an
  external collaborator (\<^verbatim>\<open>media-info.js\<close> is not among the sources); its method
  \<^verbatim>\<open>isComplete\<close> is a parameter of the functions below.
\<close>

record mediaInfo =
  mi_hasAudio :: bool
  mi_hasVideo :: bool
  mi_width :: "nat option"
  mi_height :: "nat option"
  mi_fps :: "rat option"
  mi_profile :: "string option"
  mi_level :: "string option"
  mi_chromaFormat :: "string option"
  mi_sarNum :: "nat option"
  mi_sarDen :: "nat option"
  mi_videoCodec :: "string option"
  mi_audioCodec :: "string option"
  mimeType :: "string option"

record nalUnit =
  unit_type :: nat
  unit_data :: "u8 list"

record avcSample =
  units :: "nalUnit list"
  sample_length :: nat
  isKeyframe :: bool
  avc_dts :: jsval
  avc_cts :: nat
  avc_pts :: jsval

record track =
  track_id :: nat
  sequenceNumber :: nat
  track_samples :: "avcSample list"
  track_length :: nat

text \<open>What the demuxer lets the outside see: log lines and calls of the callbacks.\<close>

datatype event =
    LogW message
  | LogV message
  | OnError DemuxErrors message
  | OnMediaInfo mediaInfo
  | OnTrackMetadata string videoMeta
  | OnDataAvailable track track

text \<open>
  The fields of the demuxer object that the modelled methods use. A callback field says
  whether the callback has been installed (it is \<^verbatim>\<open>null\<close> until then); the
  fields \<open>elstBox\<close> to \<open>sttsBox\<close> are \<^verbatim>\<open>this.elst\<close> to \<^verbatim>\<open>this.stts\<close>
  (\<^verbatim>\<open>null\<close> until the box has been parsed); \<open>trace\<close> collects the events in the order
  they happen.
\<close>

record demuxer =
  littleEndian :: bool
  onError :: bool
  onMediaInfo :: bool
  onTrackMetadata :: bool
  onDataAvailable :: bool
  hasAudio :: bool
  hasVideo :: bool
  hasAudioFlagOverrided :: bool
  hasVideoFlagOverrided :: bool
  audioInitialMetadataDispatched :: bool
  videoInitialMetadataDispatched :: bool
  dispatch :: bool
  mediaInfo :: mediaInfo
  videoMetadata :: "videoMeta option"
  elstBox :: "elstDetail option"
  stscBox :: "stscDetail option"
  stszBox :: "stszDetail option"
  stcoBox :: "stcoDetail option"
  sttsBox :: "sttsDetail option"
  naluLengthSize :: nat
  referenceFrameRate :: frame_rate
  videoTrack :: track
  audioTrack :: track
  trace :: "event list"

text \<open>
  A method runs on the demuxer and either returns or throws; the demuxer it leaves
  behind carries the assignments and events made up to that point.
\<close>

type_synonym 'a action = "demuxer \<Rightarrow> 'a outcome \<times> demuxer"

definition seq :: "'a action \<Rightarrow> ('a \<Rightarrow> 'b action) \<Rightarrow> 'b action" where
  "seq m f this =
     (case m this of (Throws e, this') \<Rightarrow> (Throws e, this') | (Returns x, this') \<Rightarrow> f x this')"

definition lift :: "'a outcome \<Rightarrow> 'a action" where
  "lift m this = (m, this)"

definition modify :: "(demuxer \<Rightarrow> demuxer) \<Rightarrow> unit action" where
  "modify f this = (Returns (), f this)"

definition emit :: "event \<Rightarrow> unit action" where
  "emit e = modify (\<lambda>this. this\<lparr>trace := trace this @ [e]\<rparr>)"

text \<open>Calling a callback that has not been installed throws.\<close>

definition call :: "(demuxer \<Rightarrow> bool) \<Rightarrow> event \<Rightarrow> unit action" where
  "call installed e this = (if installed this then emit e this else (Throws TypeError, this))"

text \<open>Assigning to a property of \<^verbatim>\<open>_videoMetadata\<close> throws when there is no such object.\<close>

definition setMeta :: "(videoMeta \<Rightarrow> videoMeta) \<Rightarrow> unit action" where
  "setMeta f this =
     (case videoMetadata this of
        None \<Rightarrow> (Throws TypeError, this)
      | Some meta \<Rightarrow> (Returns (), this\<lparr>videoMetadata := Some (f meta)\<rparr>))"

definition isInitialMetadataDispatched :: "demuxer \<Rightarrow> bool" where
  "isInitialMetadataDispatched this =
     (if hasAudio this \<and> hasVideo this
      then audioInitialMetadataDispatched this \<and> videoInitialMetadataDispatched this
      else if hasAudio this \<and> \<not> hasVideo this then audioInitialMetadataDispatched this
      else if \<not> hasAudio this \<and> hasVideo this then videoInitialMetadataDispatched this
      else False)"

section \<open>Movie and media headers\<close>

definition parseMvhd :: "u8 list \<Rightarrow> nat \<Rightarrow> nat \<Rightarrow> unit action" where
  "parseMvhd arrayBuffer dataOff dataSize this =
     (let le = littleEndian this
      in seq (lift (newDataView arrayBuffer dataOff dataSize)) (\<lambda>v this.
           case videoMetadata this of
             None \<Rightarrow>
               seq (modify (\<lambda>this.
                      if \<not> hasVideo this \<and> \<not> hasVideoFlagOverrided this
                      then this\<lparr>hasVideo := True,
                                mediaInfo := (mediaInfo this)\<lparr>mi_hasVideo := True\<rparr>\<rparr>
                      else this)) (\<lambda>_.
               seq (modify (\<lambda>this. this\<lparr>videoMetadata := Some
                      (emptyMeta\<lparr>meta_type := Some ''video'',
                                 meta_id := Some (track_id (videoTrack this))\<rparr>)\<rparr>)) (\<lambda>_.
               seq (lift (getUint32 v 20 (\<not> le))) (\<lambda>ts.
               seq (setMeta (\<lambda>meta. meta\<lparr>timescale := Num (of_nat ts)\<rparr>)) (\<lambda>_.
               seq (lift (getUint32 v 24 (\<not> le))) (\<lambda>d.
                 setMeta (\<lambda>meta. meta\<lparr>duration := Num (of_nat d)\<rparr>)))))) this
           | Some meta \<Rightarrow>
               if avcc meta \<noteq> None
               then emit (LogW [S ''Found another AVCDecoderConfigurationRecord!'']) this
               else (Returns (), this)) this)"

text \<open>
  In \<^verbatim>\<open>_parseMdhd\<close> the media timescale and duration are stored for version 0 only.
\<close>

definition parseMdhd :: "u8 list \<Rightarrow> nat \<Rightarrow> nat \<Rightarrow> unit action" where
  "parseMdhd arrayBuffer dataOff dataSize this =
     (let le = littleEndian this
      in seq (lift (newDataView arrayBuffer dataOff dataSize)) (\<lambda>v.
         seq (lift (getUint8 v 8)) (\<lambda>version.
         seq (lift (getUint32 v 8 (\<not> le))) (\<lambda>flag.
           if version = 0 then
             seq (lift (getUint32 v 20 (\<not> le))) (\<lambda>ts.
             seq (setMeta (\<lambda>meta. meta\<lparr>timescale_mdhd := Num (of_nat ts)\<rparr>)) (\<lambda>_.
             seq (lift (getUint32 v 24 (\<not> le))) (\<lambda>d.
               setMeta (\<lambda>meta. meta\<lparr>duration_mdhd := Num (of_nat d)\<rparr>))))
           else lift (Returns ())))) this)"

section \<open>Timing resolver\<close>

text \<open>
  The \<^verbatim>\<open>dts\<close> expression of \<^verbatim>\<open>_timeDetials\<close>, with its parameters \<open>mvhdts\<close> and
  \<open>mdhdts\<close>: \<^verbatim>\<open>dtsSum + samDelta * j - startTime / mvhdts * mdhdts\<close>. The value is
  the exact one; the program rounds the quotient and the product to doubles.
\<close>

definition sampleDts :: "nat \<Rightarrow> nat \<Rightarrow> nat \<Rightarrow> jsval \<Rightarrow> jsval \<Rightarrow> jsval \<Rightarrow> jsval" where
  "sampleDts dtsSum delta j startTime mvhdts mdhdts =
     js_sub (js_add (Num (of_nat dtsSum)) (js_mul (Num (of_nat delta)) (Num (of_nat j))))
            (js_mul (js_div startTime mvhdts) mdhdts)"

text \<open>
  The inner loop over the samples of one \<^verbatim>\<open>stts\<close> entry; the first numeric argument
  counts the iterations left. The accumulator is \<^verbatim>\<open>(sam, sampleIndex, dtsSum)\<close>.
  \<^verbatim>\<open>Object.assign(sam[sampleIndex], timeEntry)\<close> throws when \<^verbatim>\<open>sam\<close> is
  \<^verbatim>\<open>undefined\<close> or has no element at that index.
\<close>

fun timeRun ::
  "sttsEntry \<Rightarrow> jsval \<Rightarrow> jsval \<Rightarrow> jsval \<Rightarrow> nat \<Rightarrow> nat
     \<Rightarrow> stscSamEntry list option \<times> nat \<times> nat
     \<Rightarrow> (stscSamEntry list option \<times> nat \<times> nat) outcome"
where
  "timeRun e startTime mvhdts mdhdts 0 j acc = Returns acc"
| "timeRun e startTime mvhdts mdhdts (Suc n) j (sam, sampleIndex, dtsSum) =
     (let d = sampleDts dtsSum (samDelta e) j startTime mvhdts mdhdts;
          dtsSum' = (if int j = int (stts_samCount e) - 1
                     then dtsSum + samDelta e * (j + 1) else dtsSum)
      in case sam of
           None \<Rightarrow> Throws TypeError
         | Some t \<Rightarrow>
             if sampleIndex < length t
             then timeRun e startTime mvhdts mdhdts n (Suc j)
                    (Some (t[sampleIndex := (t ! sampleIndex)\<lparr>dts := d, cts := Num 0, pts := d\<rparr>]),
                     Suc sampleIndex, dtsSum')
             else Throws TypeError)"

text \<open>
  The outer loop over the entries, \<open>i\<close> counting up; the first numeric argument counts
  the iterations left.
\<close>

fun timeEntries ::
  "sttsEntry list \<Rightarrow> jsval \<Rightarrow> jsval \<Rightarrow> jsval \<Rightarrow> nat \<Rightarrow> nat
     \<Rightarrow> stscSamEntry list option \<times> nat \<times> nat
     \<Rightarrow> (stscSamEntry list option \<times> nat \<times> nat) outcome"
where
  "timeEntries es startTime mvhdts mdhdts 0 i acc = Returns acc"
| "timeEntries es startTime mvhdts mdhdts (Suc n) i acc =
     (if i < length es
      then andThen (timeRun (es ! i) startTime mvhdts mdhdts (stts_samCount (es ! i)) 0 acc)
             (timeEntries es startTime mvhdts mdhdts n (Suc i))
      else Throws TypeError)"

text \<open>
  \<^verbatim>\<open>_timeDetials(sam, mvhdts, mdhdts, stts, elst)\<close>. The method changes the records of
  \<open>sam\<close> in place; the model returns the table after the changes. The loop bound is
  \<^verbatim>\<open>stts.entryCount\<close>: when that property is absent the comparison \<^verbatim>\<open>i < undefined\<close>
  is false and the loop body never runs.
\<close>

definition timeDetials ::
  "stscSamEntry list option \<Rightarrow> jsval \<Rightarrow> jsval \<Rightarrow> sttsDetail \<Rightarrow> elstDetail option
     \<Rightarrow> stscSamEntry list option outcome"
where
  "timeDetials sam mvhdts mdhdts stts elst =
     andThen (case elst of
                None \<Rightarrow> Returns (Num 0)
              | Some el \<Rightarrow> (case elst_entries el of
                               [] \<Rightarrow> Throws TypeError
                             | e # _ \<Rightarrow> Returns (mediaTime e)))
       (\<lambda>startTime.
          case stts_entryCount stts of
            None \<Rightarrow> Returns sam
          | Some n \<Rightarrow>
              andThen (timeEntries (stts_entries stts) startTime mvhdts mdhdts n 0 (sam, 0, 0))
                (\<lambda>(sam', sampleIndex, dtsSum). Returns sam'))"

text \<open>
  The two statements of \<^verbatim>\<open>parseChunks\<close> that build the flat sample table once the
  boxes have been walked: \<^verbatim>\<open>_samDetails\<close> on the parsed tables, then
  \<^verbatim>\<open>_timeDetials(sam2chk, meta.timescale_mdhd, meta.timescale, stts, elst)\<close>. A table
  or a metadata object that is still \<^verbatim>\<open>null\<close> makes the property access throw:
  \<^verbatim>\<open>stco.entryCount\<close> and \<^verbatim>\<open>stsc.entryCount\<close> at the head of \<^verbatim>\<open>_samDetails\<close>,
  \<^verbatim>\<open>stsz.samples\<close> only when a sample is reached, \<^verbatim>\<open>meta.timescale_mdhd\<close> at the call
  of \<^verbatim>\<open>_timeDetials\<close> and \<^verbatim>\<open>stts.entryCount\<close> at the head of its loop.
\<close>

definition parseChunks_tables :: "demuxer \<Rightarrow> stscSamEntry list option outcome" where
  "parseChunks_tables this =
     (case (stscBox this, stcoBox this) of
        (Some tsc, Some tco) \<Rightarrow>
          andThen (case stszBox this of
                     Some tsz \<Rightarrow> samDetails tsc tsz tco
                   | None \<Rightarrow> samDetails_null tsc tco) (\<lambda>sam2chk.
            case (videoMetadata this, sttsBox this) of
              (Some meta, Some t) \<Rightarrow>
                timeDetials sam2chk (timescale_mdhd meta) (timescale meta) t (elstBox this)
            | _ \<Rightarrow> Throws TypeError)
      | _ \<Rightarrow> Throws TypeError)"

text \<open>
  The constructor: the demuxer for a probe result, on a host whose byte order is \<open>le\<close>.
  No callback is installed, no box has been parsed.
\<close>

definition newTrack :: "nat \<Rightarrow> track" where
  "newTrack n = \<lparr>track_id = n, sequenceNumber = 0, track_samples = [], track_length = 0\<rparr>"

definition newDemuxer :: "probeData \<Rightarrow> bool \<Rightarrow> demuxer" where
  "newDemuxer probeData le =
     \<lparr>littleEndian = le,
      onError = False, onMediaInfo = False, onTrackMetadata = False, onDataAvailable = False,
      hasAudio = hasAudioTrack probeData, hasVideo = hasVideoTrack probeData,
      hasAudioFlagOverrided = False, hasVideoFlagOverrided = False,
      audioInitialMetadataDispatched = False, videoInitialMetadataDispatched = False,
      dispatch = False,
      mediaInfo = \<lparr>mi_hasAudio = hasAudioTrack probeData, mi_hasVideo = hasVideoTrack probeData,
                    mi_width = None, mi_height = None, mi_fps = None, mi_profile = None,
                    mi_level = None, mi_chromaFormat = None, mi_sarNum = None, mi_sarDen = None,
                    mi_videoCodec = None, mi_audioCodec = None, mimeType = None\<rparr>,
      videoMetadata = None,
      elstBox = None, stscBox = None, stszBox = None, stcoBox = None, sttsBox = None,
      naluLengthSize = 4,
      referenceFrameRate = \<lparr>fixed = True, fps = 23976 / 1000, fps_num = 23976, fps_den = 1000\<rparr>,
      videoTrack = newTrack 1, audioTrack = newTrack 2,
      trace = []\<rparr>"

text \<open>
  The edit-list scenario: one sample of 1024 bytes in one chunk at offset 2048, one
  \<^verbatim>\<open>stts\<close> entry with delta 3000, an edit list whose first entry has
  \<^verbatim>\<open>mediaTime = 9000\<close>, movie timescale 1000 and media timescale 90000.
  \<open>edit_stts\<close> is the \<^verbatim>\<open>stts\<close> box of the scenario as bytes; \<open>edit_demuxer\<close> holds the
  tables with the entry count of \<^verbatim>\<open>stts\<close> present.
\<close>

definition edit_stts :: "u8 list" where
  "edit_stts = [0, 0, 0, 24, 0x73, 0x74, 0x74, 0x73, 0, 0, 0, 0, 0, 0, 0, 1,
                0, 0, 0, 1, 0, 0, 0x0B, 0xB8]"

definition edit_stsz :: stszDetail where
  "edit_stsz = \<lparr>sampleSize = 0, sampleCount = 1, samples = [1024], total = 1024\<rparr>"

definition edit_stco :: stcoDetail where
  "edit_stco = \<lparr>stco_entryCount = 1, stco_entries = [2048]\<rparr>"

definition edit_elst :: elstDetail where
  "edit_elst = \<lparr>elst_entries = [\<lparr>segDuration = Num 40, mediaTime = Num 9000,
                                    mediaRateInt = 1, mediaRateFrac = 0\<rparr>]\<rparr>"

definition edit_meta :: videoMeta where
  "edit_meta = emptyMeta\<lparr>meta_type := Some ''video'', meta_id := Some 1,
                         timescale := Num 1000, duration := Num 40,
                         timescale_mdhd := Num 90000, duration_mdhd := Num 3000\<rparr>"

definition edit_demuxer :: demuxer where
  "edit_demuxer =
     (newDemuxer \<lparr>consumed = 24, dataOffset = 24, rawDataSize = 8, infoOffset = 32,
                   hasAudioTrack = False, hasVideoTrack = True\<rparr> True)
     \<lparr>videoMetadata := Some edit_meta,
      elstBox := Some edit_elst,
      stscBox := Some single_stsc,
      stszBox := Some edit_stsz,
      stcoBox := Some edit_stco,
      sttsBox := Some \<lparr>stts_entryCount = Some 1,
                       stts_entries = [\<lparr>stts_samCount = 1, samDelta = 3000\<rparr>]\<rparr>\<rparr>"

section \<open>Sample description and AVC configuration\<close>

definition fcc_avc1 :: "u8 list" where
  "fcc_avc1 = [0x61, 0x76, 0x63, 0x31]"

text \<open>
  \<^verbatim>\<open>bf.toString('ascii')\<close> clears the highest bit of every byte; the box name read by
  \<^verbatim>\<open>ReadBoxName\<close> is compared after that.
\<close>

definition toAscii :: "u8 list \<Rightarrow> u8 list" where
  "toAscii bs = map (\<lambda>b. b AND 0x7F) bs"

record avc1Detail =
  avc1_size :: nat
  dataRefIndex :: nat
  avc1_width :: nat
  avc1_height :: nat
  frameCount :: nat
  strlen :: nat
  compreName :: "u8 list"
  depth :: nat

record stsdDetail =
  avc1 :: avc1Detail

text \<open>
  \<^verbatim>\<open>_parseStsd\<close> is modelled in four stages, in the order of the source text. The
  first stage reads the fields of the \<^verbatim>\<open>avc1\<close> sample entry; it yields \<open>None\<close> when
  the entry is not \<^verbatim>\<open>avc1\<close> (the method then returns \<^verbatim>\<open>undefined\<close>), and otherwise
  the view and the record.
\<close>

definition stsdEntry ::
  "u8 list \<Rightarrow> nat \<Rightarrow> nat \<Rightarrow> (u8 list \<times> stsdDetail) option action"
where
  "stsdEntry arrayBuffer dataOff dataSize this =
     (let le = littleEndian this
      in seq (lift (newDataView arrayBuffer dataOff dataSize)) (\<lambda>v.
         seq (lift (ReadBoxName arrayBuffer (dataOff + 4))) (\<lambda>box0.
         seq (lift (getUint8 v 8)) (\<lambda>version.
         seq (lift (getUint32 v 8 (\<not> le))) (\<lambda>flag.
         seq (lift (getUint32 v 12 (\<not> le))) (\<lambda>entryCount.
         seq (lift (ReadBoxName arrayBuffer (dataOff + 16 + 4))) (\<lambda>box_n.
           if toAscii box_n \<noteq> fcc_avc1
           then seq (emit (LogW [S ''Input file is not codec with h264!''])) (\<lambda>_.
                  lift (Returns None))
           else
             seq (lift (getUint32 v 16 (\<not> le))) (\<lambda>sz.
             seq (lift (getUint16 v 30 (\<not> le))) (\<lambda>dri.
             seq (lift (getUint16 v 48 (\<not> le))) (\<lambda>w.
             seq (lift (getUint16 v 50 (\<not> le))) (\<lambda>h.
             seq (lift (getUint16 v 64 (\<not> le))) (\<lambda>fc.
             seq (lift (getUint8 v 66)) (\<lambda>sl.
             seq (lift (newDataView arrayBuffer (dataOff + 66 + 1) sl)) (\<lambda>name.
             seq (lift (getUint16 v 98 (\<not> le))) (\<lambda>dp.
               lift (Returns (Some (v,
                 \<lparr>avc1 = \<lparr>avc1_size = sz, dataRefIndex = dri, avc1_width = w,
                            avc1_height = h, frameCount = fc, strlen = sl,
                            compreName = toAscii name, depth = dp\<rparr>\<rparr>)))))))))))))))))
       this)"

text \<open>
  The second stage copies the \<^verbatim>\<open>avcC\<close> record into the metadata and validates its
  head. It yields \<open>False\<close> when the method returns after an error, \<open>True\<close> when
  parsing goes on (at offset 115). The length size is assigned before it is checked.
\<close>

definition stsdAvcC :: "u8 list \<Rightarrow> u8 list \<Rightarrow> nat \<Rightarrow> bool action" where
  "stsdAvcC v arrayBuffer dataOff this =
     (let le = littleEndian this
      in seq (lift (getUint32 v 102 (\<not> le))) (\<lambda>avcCsize.
         seq (lift (newUint8Array arrayBuffer (dataOff + 102) avcCsize)) (\<lambda>avcCData.
         seq (emit (LogV [S ''Copied AVCDecoderConfigurationRecord!''])) (\<lambda>_.
         seq (setMeta (\<lambda>meta. meta\<lparr>avcc := Some avcCData\<rparr>)) (\<lambda>_.
         seq (lift (getUint8 v 110)) (\<lambda>confVer.
         seq (lift (getUint8 v 111)) (\<lambda>avcProfile.
         seq (lift (getUint8 v 112)) (\<lambda>profileCompatibility.
         seq (lift (getUint8 v 113)) (\<lambda>avcLevel.
           if confVer \<noteq> 1 \<or> avcProfile = 0
           then seq (call onError
                       (OnError FORMAT_ERROR [S ''MP4: Invalid AVCDecoderConfigurationRecord'']))
                  (\<lambda>_. lift (Returns False))
           else
             seq (lift (getUint8 v 114)) (\<lambda>b.
             seq (modify (\<lambda>this. this\<lparr>naluLengthSize := ((b AND 3) AND 3) + 1\<rparr>)) (\<lambda>_ this.
               if naluLengthSize this \<noteq> 3 \<and> naluLengthSize this \<noteq> 4
               then seq (call onError
                           (OnError FORMAT_ERROR
                              [S ''MP4: Strange NaluLengthSizeMinusOne: '',
                               V (Num (of_nat (naluLengthSize this) - 1))]))
                      (\<lambda>_. lift (Returns False)) this
               else (Returns True, this)))))))))))
       this)"

text \<open>\<^verbatim>\<open>toString(16)\<close> of a byte, padded to two digits as the source pads it.\<close>

definition hexDigit :: "nat \<Rightarrow> char" where
  "hexDigit n = (if n < 10 then char_of (48 + n) else char_of (87 + n))"

definition toString16 :: "u8 \<Rightarrow> string" where
  "toString16 b =
     (if unat b < 16 then [hexDigit (unat b)]
      else [hexDigit (unat b div 16), hexDigit (unat b mod 16)])"

definition hex2 :: "u8 \<Rightarrow> string" where
  "hex2 b = (let h = toString16 b in if length h < 2 then CHR ''0'' # h else h)"

text \<open>
  What the loop over the parameter sets does with the configuration of the first one:
  it fills the metadata (the frame rate falls back to the reference frame rate), computes
  \<^verbatim>\<open>refSampleDuration\<close> from \<^verbatim>\<open>meta.timescale_mvhd\<close>, builds the codec string from
  the bytes 1 to 3 of the parameter set (reading a missing byte throws), fills the media
  information and calls \<^verbatim>\<open>onMediaInfo\<close> when that is complete.
\<close>

definition applySps :: "(mediaInfo \<Rightarrow> bool) \<Rightarrow> spsConfig \<Rightarrow> u8 list \<Rightarrow> unit action" where
  "applySps isComplete config sps =
     seq (\<lambda>this. setMeta (\<lambda>meta.
            let fr0 = frame_rate config;
                fr = (if \<not> fixed fr0 \<or> fps_num fr0 = 0 \<or> fps_den fr0 = 0
                      then referenceFrameRate this else fr0)
            in meta\<lparr>codecWidth := Some (fst (codec_size config)),
                     codecHeight := Some (snd (codec_size config)),
                     presentWidth := Some (fst (present_size config)),
                     presentHeight := Some (snd (present_size config)),
                     profile := Some (profile_string config),
                     level := Some (level_string config),
                     bitDepth := Some (bit_depth config),
                     chromaFormat := Some (chroma_format config),
                     sarRatio := Some (sar_ratio config),
                     frameRate := Some fr,
                     refSampleDuration :=
                       js_mul (timescale_mvhd meta) (js_div (Num (fps_den fr)) (Num (fps_num fr)))\<rparr>)
            this) (\<lambda>_.
     if length sps < 4 then lift (Throws TypeError)
     else
       let codecString = ''avc1.'' @ hex2 (sps ! 1) @ hex2 (sps ! 2) @ hex2 (sps ! 3)
       in seq (setMeta (\<lambda>meta. meta\<lparr>codec := Some codecString\<rparr>)) (\<lambda>_.
          seq (modify (\<lambda>this.
                 case videoMetadata this of
                   None \<Rightarrow> this
                 | Some meta \<Rightarrow>
                     let mi = (mediaInfo this)
                           \<lparr>mi_width := codecWidth meta, mi_height := codecHeight meta,
                            mi_fps := map_option fps (frameRate meta),
                            mi_profile := profile meta, mi_level := level meta,
                            mi_chromaFormat := Some (chroma_format_string config),
                            mi_sarNum := map_option fst (sarRatio meta),
                            mi_sarDen := map_option snd (sarRatio meta),
                            mi_videoCodec := Some codecString\<rparr>;
                         mi' = (if mi_hasAudio mi
                                then (case mi_audioCodec mi of
                                        None \<Rightarrow> mi
                                      | Some ac \<Rightarrow>
                                          mi\<lparr>mimeType := Some (''video/x-mp4; codecs='' @ [CHR 0x22]
                                                 @ codecString @ '','' @ ac @ [CHR 0x22])\<rparr>)
                                else mi\<lparr>mimeType := Some (''video/x-mp4; codecs='' @ [CHR 0x22]
                                                 @ codecString @ [CHR 0x22])\<rparr>)
                     in this\<lparr>mediaInfo := mi'\<rparr>)) (\<lambda>_ this.
            if isComplete (mediaInfo this)
            then call onMediaInfo (OnMediaInfo (mediaInfo this)) this
            else (Returns (), this))))"

text \<open>
  The loop over the sequence parameter sets; the first numeric argument counts the
  iterations left, then come \<open>i\<close> and the offset. It yields the offset after the sets.
\<close>

fun spsLoop ::
  "(u8 list \<Rightarrow> spsConfig) \<Rightarrow> (mediaInfo \<Rightarrow> bool) \<Rightarrow> u8 list \<Rightarrow> u8 list \<Rightarrow> nat \<Rightarrow> bool
     \<Rightarrow> nat \<Rightarrow> nat \<Rightarrow> nat \<Rightarrow> nat action"
where
  "spsLoop parseSPS isComplete v arrayBuffer dataOff le 0 i offset = lift (Returns offset)"
| "spsLoop parseSPS isComplete v arrayBuffer dataOff le (Suc n) i offset =
     seq (lift (getUint16 v offset (\<not> le))) (\<lambda>len.
       if len = 0
       then spsLoop parseSPS isComplete v arrayBuffer dataOff le n (Suc i) (offset + 2)
       else
         seq (lift (newUint8Array arrayBuffer (dataOff + (offset + 2)) len)) (\<lambda>sps.
           let config = parseSPS sps
           in if i \<noteq> 0
              then spsLoop parseSPS isComplete v arrayBuffer dataOff le n (Suc i)
                     (offset + 2 + len)
              else seq (applySps isComplete config sps) (\<lambda>_.
                     spsLoop parseSPS isComplete v arrayBuffer dataOff le n (Suc i)
                       (offset + 2 + len))))"

text \<open>
  The third stage: the number of sequence parameter sets (offset 115) and the loop. It
  yields \<open>None\<close> when the method returns after an error, and the next offset otherwise.
\<close>

definition stsdSps ::
  "(u8 list \<Rightarrow> spsConfig) \<Rightarrow> (mediaInfo \<Rightarrow> bool) \<Rightarrow> u8 list \<Rightarrow> u8 list \<Rightarrow> nat
     \<Rightarrow> nat option action"
where
  "stsdSps parseSPS isComplete v arrayBuffer dataOff this =
     (let le = littleEndian this
      in seq (lift (getUint8 v 115)) (\<lambda>b.
           let spsNum = (b AND 0x1F) AND 0x1F
           in if spsNum = 0
              then seq (call onError
                          (OnError FORMAT_ERROR
                             [S ''MP4: Invalid AVCDecoderConfigurationRecord: No SPS'']))
                     (\<lambda>_. lift (Returns None))
              else
                seq (if spsNum > 1
                     then emit (LogW [S ''MP4: Strange AVCDecoderConfigurationRecord: SPS Count = '',
                                      V (Num (of_nat spsNum))])
                     else lift (Returns ())) (\<lambda>_.
                seq (spsLoop parseSPS isComplete v arrayBuffer dataOff le spsNum 0 116)
                  (\<lambda>offset. lift (Returns (Some offset)))))
       this)"

text \<open>The loop over the picture parameter sets, which only skips them.\<close>

fun ppsLoop :: "u8 list \<Rightarrow> bool \<Rightarrow> nat \<Rightarrow> nat \<Rightarrow> nat outcome" where
  "ppsLoop v le 0 offset = Returns offset"
| "ppsLoop v le (Suc n) offset =
     andThen (getUint16 v offset (\<not> le)) (\<lambda>len.
       if len = 0 then ppsLoop v le n (offset + 2) else ppsLoop v le n (offset + 2 + len))"

text \<open>
  The fourth stage: the picture parameter sets, then the dispatch of pending frames and
  the notification of the new metadata. It yields \<open>False\<close> when the method returns
  after an error.
\<close>

definition stsdPps :: "u8 list \<Rightarrow> nat \<Rightarrow> bool action" where
  "stsdPps v offset this =
     (let le = littleEndian this
      in seq (lift (getUint8 v offset)) (\<lambda>ppsNum.
           if ppsNum = 0
           then seq (call onError
                       (OnError FORMAT_ERROR
                          [S ''MP4: Invalid AVCDecoderConfigurationRecord: No PPS'']))
                  (\<lambda>_. lift (Returns False))
           else
             seq (if ppsNum > 1
                  then emit (LogW [S ''MP4: Strange AVCDecoderConfigurationRecord: PPS Count = '',
                                   V (Num (of_nat ppsNum))])
                  else lift (Returns ())) (\<lambda>_.
             seq (lift (ppsLoop v le ppsNum (offset + 1))) (\<lambda>_.
             seq (\<lambda>this.
                    if isInitialMetadataDispatched this
                    then (if dispatch this
                             \<and> (track_length (audioTrack this) \<noteq> 0
                                  \<or> track_length (videoTrack this) \<noteq> 0)
                          then call onDataAvailable
                                 (OnDataAvailable (audioTrack this) (videoTrack this)) this
                          else (Returns (), this))
                    else modify (\<lambda>this. this\<lparr>videoInitialMetadataDispatched := True\<rparr>) this)
               (\<lambda>_.
             seq (modify (\<lambda>this. this\<lparr>dispatch := False\<rparr>)) (\<lambda>_ this.
               case videoMetadata this of
                 None \<Rightarrow> (Throws TypeError, this)
               | Some meta \<Rightarrow>
                   seq (call onTrackMetadata (OnTrackMetadata ''video'' meta))
                     (\<lambda>_. lift (Returns True)) this)))))
       this)"

text \<open>
  \<^verbatim>\<open>_parseStsd\<close>. The result is the record, or \<open>None\<close> for the \<^verbatim>\<open>undefined\<close> the
  method returns when the entry is not \<^verbatim>\<open>avc1\<close> or after an error.
\<close>

definition parseStsd ::
  "(u8 list \<Rightarrow> spsConfig) \<Rightarrow> (mediaInfo \<Rightarrow> bool) \<Rightarrow> u8 list \<Rightarrow> nat \<Rightarrow> nat
     \<Rightarrow> stsdDetail option action"
where
  "parseStsd parseSPS isComplete arrayBuffer dataOff dataSize =
     seq (stsdEntry arrayBuffer dataOff dataSize) (\<lambda>entry.
       case entry of
         None \<Rightarrow> lift (Returns None)
       | Some (v, stsdDetail) \<Rightarrow>
           seq (stsdAvcC v arrayBuffer dataOff) (\<lambda>go.
             if \<not> go then lift (Returns None)
             else
               seq (stsdSps parseSPS isComplete v arrayBuffer dataOff) (\<lambda>next.
                 case next of
                   None \<Rightarrow> lift (Returns None)
                 | Some offset \<Rightarrow>
                     seq (stsdPps v offset) (\<lambda>ok.
                       if ok then lift (Returns (Some stsdDetail))
                       else lift (Returns None)))))"

text \<open>
  The events a method adds to the trace, and two notions used to state what a method
  leaves alone: \<open>extends Q this this'\<close> says that \<open>this'\<close> has the trace of \<open>this\<close>
  followed by events that all satisfy \<open>Q\<close> and has the same length size; \<open>keeps Q m\<close>
  says that running \<open>m\<close> always extends the demuxer in that way.
\<close>

definition newEvents :: "demuxer \<Rightarrow> demuxer \<Rightarrow> event list" where
  "newEvents this this' = drop (length (trace this)) (trace this')"

definition extends :: "(event \<Rightarrow> bool) \<Rightarrow> demuxer \<Rightarrow> demuxer \<Rightarrow> bool" where
  "extends Q this this' \<longleftrightarrow>
     (\<exists>es. trace this' = trace this @ es \<and> (\<forall>e \<in> set es. Q e)) \<and>
     naluLengthSize this' = naluLengthSize this"

definition keeps :: "(event \<Rightarrow> bool) \<Rightarrow> 'a action \<Rightarrow> bool" where
  "keeps Q m \<longleftrightarrow> (\<forall>this. extends Q this (snd (m this)))"

text \<open>The two errors of the validation of the \<^verbatim>\<open>avcC\<close> head.\<close>

definition invalidRecord :: event where
  "invalidRecord = OnError FORMAT_ERROR [S ''MP4: Invalid AVCDecoderConfigurationRecord'']"

definition strangeLength :: "nat \<Rightarrow> event" where
  "strangeLength n =
     OnError FORMAT_ERROR [S ''MP4: Strange NaluLengthSizeMinusOne: '', V (Num (of_nat n - 1))]"

definition headError :: "event \<Rightarrow> bool" where
  "headError e \<longleftrightarrow> e = invalidRecord \<or> (\<exists>n. e = strangeLength n)"

text \<open>An action that leaves the demuxer as it was whenever it yields a value \<open>Some y\<close>.\<close>

definition unchanged :: "'a option action \<Rightarrow> bool" where
  "unchanged m \<longleftrightarrow> (\<forall>this y. fst (m this) = Returns (Some y) \<longrightarrow> snd (m this) = this)"

text \<open>
  A movie header with timescale 1000 and duration 40, and a sample description with one
  \<^verbatim>\<open>avc1\<close> entry of 320 by 240 whose \<^verbatim>\<open>avcC\<close> record has version 1, profile 100,
  four-byte lengths, one sequence parameter set of four bytes and one picture parameter
  set of one byte. \<open>sps25\<close> stands for an SPS parser that reports a fixed frame rate of
  25 frames per second.
\<close>

definition mvhd_box :: "u8 list" where
  "mvhd_box = [0, 0, 0, 32, 0x6D, 0x76, 0x68, 0x64, 0, 0, 0, 0, 0, 0, 0, 0, 0, 0, 0, 0,
               0, 0, 0x03, 0xE8, 0, 0, 0, 40, 0, 1, 0, 0]"

definition stsd_box :: "u8 list" where
  "stsd_box =
     [0, 0, 0, 126, 0x73, 0x74, 0x73, 0x64, 0, 0, 0, 0, 0, 0, 0, 1,
      0, 0, 0, 110, 0x61, 0x76, 0x63, 0x31, 0, 0, 0, 0, 0, 0, 0, 1,
      0, 0, 0, 0, 0, 0, 0, 0, 0, 0, 0, 0, 0, 0, 0, 0,
      0x01, 0x40, 0x00, 0xF0, 0, 0x48, 0, 0, 0, 0x48, 0, 0, 0, 0, 0, 0,
      0, 1, 0, 0, 0, 0, 0, 0, 0, 0, 0, 0, 0, 0, 0, 0,
      0, 0, 0, 0, 0, 0, 0, 0, 0, 0, 0, 0, 0, 0, 0, 0,
      0, 0, 0, 0x18, 0xFF, 0xFF, 0, 0, 0, 24, 0x61, 0x76, 0x63, 0x43,
      1, 0x64, 0, 0x1F, 0xFF, 0xE1, 0, 4, 0x67, 0x64, 0x00, 0x1F, 1, 0, 1, 0x68]"

definition sps25 :: "u8 list \<Rightarrow> spsConfig" where
  "sps25 sps = \<lparr>profile_string = ''High'', level_string = ''3.1'', bit_depth = 8,
                chroma_format = 420, chroma_format_string = ''4:2:0'',
                frame_rate = \<lparr>fixed = True, fps = 25, fps_num = 25, fps_den = 1\<rparr>,
                sar_ratio = (1, 1), codec_size = (320, 240), present_size = (320, 240)\<rparr>"

text \<open>A demuxer on a little-endian host with the four callbacks installed.\<close>

definition readyDemuxer :: demuxer where
  "readyDemuxer =
     (newDemuxer \<lparr>consumed = 24, dataOffset = 24, rawDataSize = 8, infoOffset = 32,
                   hasAudioTrack = False, hasVideoTrack = True\<rparr> True)
     \<lparr>onError := True, onMediaInfo := True, onTrackMetadata := True, onDataAvailable := True\<rparr>"

text \<open>The metadata and the demuxer after \<^verbatim>\<open>_parseMvhd\<close> has read \<open>mvhd_box\<close>.\<close>

definition mvhd_meta :: videoMeta where
  "mvhd_meta = emptyMeta\<lparr>meta_type := Some ''video'', meta_id := Some 1,
                         timescale := Num 1000, duration := Num 40\<rparr>"

definition headedDemuxer :: demuxer where
  "headedDemuxer = readyDemuxer\<lparr>videoMetadata := Some mvhd_meta\<rparr>"

text \<open>An action that never changes the metadata object.\<close>

definition metaFixed :: "'a action \<Rightarrow> bool" where
  "metaFixed m \<longleftrightarrow> (\<forall>this. videoMetadata (snd (m this)) = videoMetadata this)"

text \<open>The demuxer after the head of the \<^verbatim>\<open>avcC\<close> record of \<open>stsd_box\<close> has been read.\<close>

definition afterHead :: demuxer where
  "afterHead = headedDemuxer
     \<lparr>trace := trace headedDemuxer @ [LogV [S ''Copied AVCDecoderConfigurationRecord!'']],
      videoMetadata := Some (mvhd_meta\<lparr>avcc := Some (take 24 (drop 102 stsd_box))\<rparr>),
      naluLengthSize := 4\<rparr>"

section \<open>NAL framer\<close>

text \<open>
  The length prefix of the unit at \<open>offset\<close>: a big-endian 32-bit read, shifted right by
  8 bits when the length size is 3.
\<close>

definition readNaluSize :: "u8 list \<Rightarrow> nat \<Rightarrow> nat \<Rightarrow> bool \<Rightarrow> nat outcome" where
  "readNaluSize v offset lengthSize le =
     andThen (getUint32 v offset (\<not> le)) (\<lambda>naluSize.
       Returns (if lengthSize = 3 then drop_bit 8 naluSize else naluSize))"

text \<open>
  How the \<^verbatim>\<open>while\<close> loop of \<^verbatim>\<open>_parseAVCVideoData\<close> ends: it runs to its end or
  breaks (\<open>Completed\<close>, with the units, their total length, the keyframe flag and the
  warning logged by the break, if any), the method returns from inside the loop
  (\<open>Abandoned\<close>, with the warning), or a read throws (\<open>Raised\<close>).
\<close>

datatype framing =
    Completed "nalUnit list" nat bool "event list"
  | Abandoned "event list"
  | Raised js_error

text \<open>
  The loop, with the local variables \<^verbatim>\<open>offset\<close>, \<^verbatim>\<open>units\<close>, \<^verbatim>\<open>length\<close> and
  \<^verbatim>\<open>keyframe\<close> as its last four arguments. The offset advances by
  \<^verbatim>\<open>lengthSize + naluSize\<close>; when that is 0 the loop never ends, and the value is
  \<open>None\<close>.
\<close>

partial_function (option) naluLoop ::
  "u8 list \<Rightarrow> u8 list \<Rightarrow> nat \<Rightarrow> nat \<Rightarrow> nat \<Rightarrow> bool \<Rightarrow> jsval
     \<Rightarrow> nat \<Rightarrow> nalUnit list \<Rightarrow> nat \<Rightarrow> bool \<Rightarrow> framing option"
where
  "naluLoop v arrayBuffer dataOff dataSize lengthSize le ts offset us len keyframe =
     (if offset < dataSize then
        if offset + 4 \<ge> dataSize
        then Some (Completed us len keyframe
               [LogW [S ''Malformed Nalu near timestamp '', V ts, S '', offset = '',
                      V (Num (of_nat offset)), S '', dataSize = '', V (Num (of_nat dataSize))]])
        else
          (case readNaluSize v offset lengthSize le of
             Throws e \<Rightarrow> Some (Raised e)
           | Returns naluSize \<Rightarrow>
               if int naluSize > int dataSize - int lengthSize
               then Some (Abandoned
                      [LogW [S ''Malformed Nalus near timestamp '', V ts,
                             S '', NaluSize > DataSize!'']])
               else
                 (case getUint8 v (offset + lengthSize) of
                    Throws e \<Rightarrow> Some (Raised e)
                  | Returns b \<Rightarrow>
                      (case newUint8Array arrayBuffer (dataOff + offset) (lengthSize + naluSize) of
                         Throws e \<Rightarrow> Some (Raised e)
                       | Returns d \<Rightarrow>
                           naluLoop v arrayBuffer dataOff dataSize lengthSize le ts
                             (offset + (lengthSize + naluSize))
                             (us @ [\<lparr>unit_type = b AND 0x1F, unit_data = d\<rparr>])
                             (len + length d)
                             (if b AND 0x1F = 5 then True else keyframe))))
      else Some (Completed us len keyframe []))"

text \<open>
  \<^verbatim>\<open>_parseAVCVideoData(arrayBuffer, dataOffset, dataSize, dts)\<close>. The sample is appended
  to the video track when the loop completes with at least one unit. \<open>None\<close> means that
  the method does not return. The offset and the size of the sample are natural numbers
  here, as they are for a sample that the resolver has located.
\<close>

definition parseAVCVideoData ::
  "u8 list \<Rightarrow> nat \<Rightarrow> nat \<Rightarrow> jsval \<Rightarrow> demuxer \<Rightarrow> (unit outcome \<times> demuxer) option"
where
  "parseAVCVideoData arrayBuffer dataOff dataSize ts this =
     (case newDataView arrayBuffer dataOff dataSize of
        Throws e \<Rightarrow> Some (Throws e, this)
      | Returns v \<Rightarrow>
          (case naluLoop v arrayBuffer dataOff dataSize (naluLengthSize this) (littleEndian this)
                  ts 0 [] 0 False of
             None \<Rightarrow> None
           | Some (Raised e) \<Rightarrow> Some (Throws e, this)
           | Some (Abandoned logged) \<Rightarrow>
               Some (Returns (), this\<lparr>trace := trace this @ logged\<rparr>)
           | Some (Completed us len keyframe logged) \<Rightarrow>
               if us \<noteq> []
               then Some (Returns (),
                      this\<lparr>trace := trace this @ logged,
                            videoTrack := (videoTrack this)
                              \<lparr>track_samples := track_samples (videoTrack this)
                                 @ [\<lparr>units = us, sample_length = len, isKeyframe = keyframe,
                                      avc_dts = ts, avc_cts = 0, avc_pts = ts\<rparr>],
                               track_length := track_length (videoTrack this) + len\<rparr>\<rparr>)
               else Some (Returns (), this\<lparr>trace := trace this @ logged\<rparr>)))"



text \<open>
  A chunk that is one sample of two units of type 1, and one that is a sample of a unit
  of type 1 followed by a unit of type 5 (first byte \<open>0x65\<close>).
\<close>

definition plain_sample :: "u8 list" where
  "plain_sample = [0, 0, 0, 2, 0x41, 0x9A, 0, 0, 0, 1, 0x41]"

definition idr_sample :: "u8 list" where
  "idr_sample = [0, 0, 0, 2, 0x41, 0x9A, 0, 0, 0, 1, 0x65]"


text \<open>
  The samples that the framer builds from \<^verbatim>\<open>idr_sample\<close> and \<^verbatim>\<open>plain_sample\<close>, and the
  demuxer \<^verbatim>\<open>readyDemuxer\<close> after one of them has been appended to its video track.
\<close>

definition idr_framed_sample :: avcSample where
  "idr_framed_sample =
     \<lparr>units = [\<lparr>unit_type = 1, unit_data = [0, 0, 0, 2, 0x41, 0x9A]\<rparr>,
               \<lparr>unit_type = 5, unit_data = [0, 0, 0, 1, 0x65]\<rparr>],
      sample_length = 11, isKeyframe = True,
      avc_dts = Undefined, avc_cts = 0, avc_pts = Undefined\<rparr>"

definition plain_framed_sample :: avcSample where
  "plain_framed_sample =
     \<lparr>units = [\<lparr>unit_type = 1, unit_data = [0, 0, 0, 2, 0x41, 0x9A]\<rparr>,
               \<lparr>unit_type = 1, unit_data = [0, 0, 0, 1, 0x41]\<rparr>],
      sample_length = 11, isKeyframe = False,
      avc_dts = Undefined, avc_cts = 0, avc_pts = Undefined\<rparr>"

definition framed :: "avcSample \<Rightarrow> demuxer" where
  "framed s = readyDemuxer\<lparr>videoTrack :=
       \<lparr>track_id = 1, sequenceNumber = 0, track_samples = [s], track_length = 11\<rparr>\<rparr>"

section \<open>Verification of the probe\<close>

lemma byteAt_append1:
  "0 \<le> i \<Longrightarrow> i < int (length xs) \<Longrightarrow> byteAt (xs @ ys) i = byteAt xs i"
  by (auto simp: byteAt_def nth_append)

lemma byteAt_append2: "0 \<le> i \<Longrightarrow> byteAt (xs @ ys) (int (length xs) + i) = byteAt ys i"
  by (auto simp: byteAt_def nth_append nat_add_distrib)

lemma ReadBig32_append1:
  "0 \<le> i \<Longrightarrow> i + 3 < int (length xs) \<Longrightarrow> ReadBig32 (xs @ ys) i = ReadBig32 xs i"
  by (simp add: ReadBig32_def byteAt_append1)

lemma ReadBig32_append2:
  "0 \<le> i \<Longrightarrow> ReadBig32 (xs @ ys) (int (length xs) + i) = ReadBig32 ys i"
  using byteAt_append2[of i xs ys] byteAt_append2[of "i + 1" xs ys]
    byteAt_append2[of "i + 2" xs ys] byteAt_append2[of "i + 3" xs ys]
  by (simp add: ReadBig32_def add.assoc)

lemma isBox_type_bytes:
  assumes "isBox [a, b, c, d] bs"
  shows "byteAt (bs @ ys) 4 = Some a" "byteAt (bs @ ys) 5 = Some b"
    "byteAt (bs @ ys) 6 = Some c" "byteAt (bs @ ys) 7 = Some d"
proof -
  from assms have len: "8 \<le> length bs" and t: "take 4 (drop 4 bs) = [a, b, c, d]"
    by (simp_all add: isBox_def)
  have nth: "take 4 (drop 4 bs) ! k = bs ! (4 + k)" if "k < 4" for k
    using that len by simp
  have "bs ! 4 = a" "bs ! 5 = b" "bs ! 6 = c" "bs ! 7 = d"
    using nth[of 0] nth[of 1] nth[of 2] nth[of 3] t by simp_all
  with len show "byteAt (bs @ ys) 4 = Some a" "byteAt (bs @ ys) 5 = Some b"
    "byteAt (bs @ ys) 6 = Some c" "byteAt (bs @ ys) 7 = Some d"
    by (simp_all add: byteAt_def nth_append)
qed

lemma isBox_size: "isBox t bs \<Longrightarrow> ReadBig32 (bs @ ys) 0 = int (length bs)"
  by (simp add: isBox_def ReadBig32_append1)

text \<open>
  Claim C4, as amended. When the buffer starts with an \<^verbatim>\<open>ftyp\<close> box and another
  box follows it, the probe matches and \<^verbatim>\<open>dataOffset\<close> is the size of the
  \<^verbatim>\<open>ftyp\<close> box plus the size of the box that follows: it points past that second box,
  not to the first byte after \<^verbatim>\<open>ftyp\<close>.
\<close>

theorem probe_dataOffset_after_next_box:
  assumes "isBox fcc_ftyp f" and "isBox t m"
  shows "match (probe (f @ m @ rest)) \<and>
         dataOffset (info (probe (f @ m @ rest))) = int (length f) + int (length m)"
proof -
  have ty: "byteAt (f @ m @ rest) 4 = Some 0x66" "byteAt (f @ m @ rest) 5 = Some 0x74"
    "byteAt (f @ m @ rest) 6 = Some 0x79" "byteAt (f @ m @ rest) 7 = Some 0x70"
    using isBox_type_bytes[of "0x66" "0x74" "0x79" "0x70" f "m @ rest"] assms(1)
    by (simp_all add: fcc_ftyp_def)
  have o1: "ReadBig32 (f @ m @ rest) 0 = int (length f)"
    using assms(1) by (rule isBox_size)
  have o2: "ReadBig32 (f @ m @ rest) (int (length f)) = int (length m)"
    using ReadBig32_append2[of 0 f "m @ rest"] isBox_size[OF assms(2), of rest] by simp
  show ?thesis
    by (simp add: probe_def Let_def ty o1 o2)
qed

theorem probe_dataOffset_after_next_box_witness:
  "isBox fcc_ftyp [0, 0, 0, 16, 0x66, 0x74, 0x79, 0x70, 0x69, 0x73, 0x6F, 0x6D, 0, 0, 2, 0] \<and>
   isBox fcc_moov [0, 0, 0, 8, 0x6D, 0x6F, 0x6F, 0x76] \<and>
   dataOffset (info (probe ([0, 0, 0, 16, 0x66, 0x74, 0x79, 0x70, 0x69, 0x73, 0x6F, 0x6D, 0, 0, 2, 0]
       @ [0, 0, 0, 8, 0x6D, 0x6F, 0x6F, 0x76] @ []))) = 24"
proof -
  have a: "isBox fcc_ftyp [0, 0, 0, 16, 0x66, 0x74, 0x79, 0x70, 0x69, 0x73, 0x6F, 0x6D, 0, 0, 2, 0]"
    by code_simp
  have b: "isBox fcc_moov [0, 0, 0, 8, 0x6D, 0x6F, 0x6F, 0x76]"
    by code_simp
  show ?thesis
    using probe_dataOffset_after_next_box[OF a b, of "[]"] a b by simp
qed

text \<open>
  Claim C4 as stated fails: for a 16-byte \<^verbatim>\<open>ftyp\<close> box followed directly by an
  8-byte \<^verbatim>\<open>moov\<close> box the probe returns \<^verbatim>\<open>dataOffset = 24\<close>, not 16.
\<close>

theorem probe_dataOffset_counterexample:
  "isBox fcc_ftyp [0, 0, 0, 16, 0x66, 0x74, 0x79, 0x70, 0x69, 0x73, 0x6F, 0x6D, 0, 0, 2, 0] \<and>
   isBox fcc_moov [0, 0, 0, 8, 0x6D, 0x6F, 0x6F, 0x76] \<and>
   probe ([0, 0, 0, 16, 0x66, 0x74, 0x79, 0x70, 0x69, 0x73, 0x6F, 0x6D, 0, 0, 2, 0]
       @ [0, 0, 0, 8, 0x6D, 0x6F, 0x6F, 0x76])
     = Match \<lparr>consumed = 24, dataOffset = 24, rawDataSize = 0, infoOffset = 24,
              hasAudioTrack = False, hasVideoTrack = True\<rparr> \<and>
   (24 :: int) \<noteq> int (length [0, 0, 0, 16, 0x66, 0x74, 0x79, 0x70, 0x69, 0x73, 0x6F, 0x6D, 0, 0, 2, 0 :: u8])"
  by code_simp

text \<open>
  Claim C10. Whenever the probe matches, the record says there is no audio track and
  there is a video track, whatever the buffer holds.
\<close>

theorem probe_track_flags:
  "probe buffer = Match r \<Longrightarrow> hasAudioTrack r = False \<and> hasVideoTrack r = True"
  by (auto simp: probe_def Let_def split: if_splits)

theorem probe_track_flags_witness:
  "probe [0, 0, 0, 8, 0x66, 0x74, 0x79, 0x70]
     = Match \<lparr>consumed = 8, dataOffset = 8, rawDataSize = 0, infoOffset = 8,
              hasAudioTrack = False, hasVideoTrack = True\<rparr> \<and>
   hasAudioTrack \<lparr>consumed = 8, dataOffset = 8, rawDataSize = 0, infoOffset = 8,
              hasAudioTrack = False, hasVideoTrack = True\<rparr> = False"
proof -
  have p: "probe [0, 0, 0, 8, 0x66, 0x74, 0x79, 0x70]
     = Match \<lparr>consumed = 8, dataOffset = 8, rawDataSize = 0, infoOffset = 8,
              hasAudioTrack = False, hasVideoTrack = True\<rparr>"
    by code_simp
  show ?thesis using probe_track_flags[OF p] p by simp
qed

section \<open>Verification of the sample-to-chunk resolver\<close>

lemma chunkSamples_run:
  "\<exists>ys. chunkSamples sizes k n i c (acc, s) = (acc @ ys, s + n) \<and> length ys = n \<and>
        (\<forall>l<n. chkIndex (ys ! l) = k \<and> indexInChk (ys ! l) = i + l \<and>
               sam_size (ys ! l) = jsNth sizes (s + l) \<and>
               sam_offset (ys ! l) =
                 (if l = 0 then c
                  else js_add (sam_offset (ys ! (l - 1))) (sam_size (ys ! (l - 1)))))"
proof (induction n arbitrary: i c acc s)
  case 0
  show ?case by simp
next
  case (Suc n)
  define e where "e = \<lparr>chkIndex = k, indexInChk = i, sam_offset = c,
                        sam_size = jsNth sizes s,
                        dts = Undefined, cts = Undefined, pts = Undefined\<rparr>"
  obtain ys where run: "chunkSamples sizes k n (Suc i) (js_add c (jsNth sizes s)) (acc @ [e], Suc s)
                          = ((acc @ [e]) @ ys, Suc s + n)"
    and len: "length ys = n"
    and el: "\<forall>l<n. chkIndex (ys ! l) = k \<and> indexInChk (ys ! l) = Suc i + l \<and>
               sam_size (ys ! l) = jsNth sizes (Suc s + l) \<and>
               sam_offset (ys ! l) =
                 (if l = 0 then js_add c (jsNth sizes s)
                  else js_add (sam_offset (ys ! (l - 1))) (sam_size (ys ! (l - 1))))"
    using Suc.IH[of "Suc i" "js_add c (jsNth sizes s)" "acc @ [e]" "Suc s"] by blast
  have step: "chunkSamples sizes k (Suc n) i c (acc, s) = (acc @ (e # ys), s + Suc n)"
    using run by (simp add: e_def Let_def)
  have "chkIndex ((e # ys) ! l) = k \<and> indexInChk ((e # ys) ! l) = i + l \<and>
        sam_size ((e # ys) ! l) = jsNth sizes (s + l) \<and>
        sam_offset ((e # ys) ! l) =
          (if l = 0 then c
           else js_add (sam_offset ((e # ys) ! (l - 1))) (sam_size ((e # ys) ! (l - 1))))"
    if "l < Suc n" for l
  proof (cases l)
    case 0
    then show ?thesis by (simp add: e_def)
  next
    case (Suc m)
    with that have m: "m < n" by simp
    show ?thesis
    proof (cases m)
      case 0
      with el m Suc show ?thesis by (simp add: e_def)
    next
      case (Suc m')
      with el m \<open>l = Suc m\<close> show ?thesis by simp
    qed
  qed
  with step len show ?case by (intro exI[of _ "e # ys"]) simp
qed

lemma chunkCount_simps [simp]:
  "chunkCount None = 0" "chunkCount (Some e) = samCount e"
  by (simp_all add: chunkCount_def)

lemma walkChunks_prefix:
  "walkChunks cs offsets sizes k (acc, s) = Returns (t, s') \<Longrightarrow>
   \<exists>ys. t = acc @ ys \<and> length ys = sum_list (map chunkCount cs) \<and>
        s' = s + sum_list (map chunkCount cs)"
proof (induction cs arbitrary: k acc s)
  case Nil
  then show ?case by simp
next
  case (Cons c cs)
  show ?case
  proof (cases c)
    case None
    with Cons.prems show ?thesis by simp
  next
    case (Some e)
    obtain ys where ys: "chunkSamples sizes k (samCount e) 0 (jsNth offsets k) (acc, s)
                          = (acc @ ys, s + samCount e)" and len: "length ys = samCount e"
      using chunkSamples_run[of sizes k "samCount e" 0 "jsNth offsets k" acc s] by blast
    from Cons.prems Some ys
    have "walkChunks cs offsets sizes (Suc k) (acc @ ys, s + samCount e) = Returns (t, s')"
      by simp
    from Cons.IH[OF this] obtain zs where "t = (acc @ ys) @ zs"
      "length zs = sum_list (map chunkCount cs)" "s' = s + samCount e + sum_list (map chunkCount cs)"
      by blast
    with len Some show ?thesis
      by (intro exI[of _ "ys @ zs"]) simp
  qed
qed

lemma walkChunks_cursor:
  assumes "walkChunks cs offsets sizes k (acc, s) = Returns (t, s')"
    and "m < length cs" and "cs ! m = Some c" and "l < samCount c"
  shows "length acc + firstSamIndex cs m + l < length t \<and>
         chkIndex (t ! (length acc + firstSamIndex cs m + l)) = k + m \<and>
         indexInChk (t ! (length acc + firstSamIndex cs m + l)) = l \<and>
         sam_size (t ! (length acc + firstSamIndex cs m + l))
           = jsNth sizes (s + firstSamIndex cs m + l) \<and>
         sam_offset (t ! (length acc + firstSamIndex cs m + l)) =
           (if l = 0 then jsNth offsets (k + m)
            else js_add (sam_offset (t ! (length acc + firstSamIndex cs m + l - 1)))
                        (sam_size (t ! (length acc + firstSamIndex cs m + l - 1))))"
  using assms
proof (induction cs arbitrary: k acc s m)
  case Nil
  then show ?case by simp
next
  case (Cons c0 cs)
  show ?case
  proof (cases c0)
    case None
    with Cons.prems show ?thesis by simp
  next
    case (Some e)
    obtain ys where ys: "chunkSamples sizes k (samCount e) 0 (jsNth offsets k) (acc, s)
                          = (acc @ ys, s + samCount e)" and len: "length ys = samCount e"
      and el: "\<forall>l. l < samCount e \<longrightarrow> chkIndex (ys ! l) = k \<and> indexInChk (ys ! l) = 0 + l \<and>
               sam_size (ys ! l) = jsNth sizes (s + l) \<and>
               sam_offset (ys ! l) =
                 (if l = 0 then jsNth offsets k
                  else js_add (sam_offset (ys ! (l - 1))) (sam_size (ys ! (l - 1))))"
      using chunkSamples_run[of sizes k "samCount e" 0 "jsNth offsets k" acc s] by blast
    from Cons.prems(1) Some ys
    have rest: "walkChunks cs offsets sizes (Suc k) (acc @ ys, s + samCount e) = Returns (t, s')"
      by simp
    show ?thesis
    proof (cases m)
      case 0
      from walkChunks_prefix[OF rest] obtain zs where t: "t = (acc @ ys) @ zs" by blast
      from 0 Cons.prems(3) Some have ce: "c = e" by simp
      have nth: "t ! (length acc + j) = ys ! j" if "j < samCount e" for j
        using that len t by (simp add: nth_append)
      from Cons.prems(4) ce have l: "l < samCount e" by simp
      have lt: "length acc + l < length t" using l len t by simp
      have prev: "t ! (length acc + l - 1) = ys ! (l - 1)" if "l \<noteq> 0"
      proof -
        from that l have "l - 1 < samCount e" by simp
        from nth[OF this] that show ?thesis by simp
      qed
      from el l have "chkIndex (ys ! l) = k" "indexInChk (ys ! l) = l"
        "sam_size (ys ! l) = jsNth sizes (s + l)"
        "sam_offset (ys ! l) = (if l = 0 then jsNth offsets k
            else js_add (sam_offset (ys ! (l - 1))) (sam_size (ys ! (l - 1))))"
        by simp_all
      with 0 lt nth[OF l] prev show ?thesis
        by (simp add: firstSamIndex_def)
    next
      case (Suc m')
      with Cons.prems have m': "m' < length cs" "cs ! m' = Some c" by simp_all
      have fs: "firstSamIndex (c0 # cs) m = samCount e + firstSamIndex cs m'"
        using Suc Some by (simp add: firstSamIndex_def)
      have idx: "length (acc @ ys) + firstSamIndex cs m' + l
                   = length acc + firstSamIndex (c0 # cs) m + l"
        using fs len by simp
      have sidx: "s + samCount e + firstSamIndex cs m' + l = s + firstSamIndex (c0 # cs) m + l"
        using fs by simp
      from Cons.IH[OF rest m' Cons.prems(4)] show ?thesis
        unfolding idx sidx using Suc by simp
    qed
  qed
qed

lemma samDetails_check_passes:
  "samDetails stsc stsz stco \<noteq> Returns None"
proof
  assume a: "samDetails stsc stsz stco = Returns None"
  then obtain chk t s' where
    "walkChunks chk (stco_entries stco) (samples stsz) 0 ([], 0) = Returns (t, s')"
    and "s' \<noteq> length t"
    by (auto simp: samDetails_def Let_def andThen_def split: outcome.splits if_splits)
  with walkChunks_prefix[of chk "stco_entries stco" "samples stsz" 0 "[]" 0 t s']
  show False by auto
qed

lemma fold_arraySet_upto:
  assumes "1 \<le> b" and "b + m \<le> lc"
  shows "fold (\<lambda>j a. arraySet a j x) [int b - 1 .. int b + int m - 2]
           (replicate (lc - 1) None @ ys)
         = replicate (b - 1) None @ replicate m (Some x) @ replicate (lc - b - m) None @ ys"
  using assms(2)
proof (induction m)
  case 0
  have "replicate (lc - 1) (None :: 'a option)
          = replicate (b - 1) None @ replicate (lc - b) None"
    using assms(1) 0 by (simp add: replicate_add [symmetric])
  then show ?case by simp
next
  case (Suc m)
  have split: "[int b - 1 .. int b + int (Suc m) - 2]
                 = [int b - 1 .. int b + int m - 2] @ [int b + int m - 1]"
    using upto_rec2[of "int b - 1" "int b + int m - 1"] by (simp add: algebra_simps)
  obtain r where r: "lc - b - m = Suc r" "lc - b - Suc m = r"
    using Suc.prems by (cases "lc - b - m") auto
  have idx: "nat (int b + int m - 1) = (b - 1) + m"
    using assms(1) by simp
  have pos: "\<not> int b + int m - 1 < 0"
    using assms(1) by simp
  have upd: "arraySet (replicate (b - 1) None @ replicate m (Some x)
                        @ replicate (Suc r) None @ ys) (int b + int m - 1) x
             = replicate (b - 1) None @ replicate (Suc m) (Some x) @ replicate r None @ ys"
    unfolding arraySet_def idx using pos
    by (simp add: list_update_append replicate_append_same)
  from Suc have "fold (\<lambda>j a. arraySet a j x) [int b - 1 .. int b + int m - 2]
           (replicate (lc - 1) None @ ys)
         = replicate (b - 1) None @ replicate m (Some x) @ replicate (Suc r) None @ ys"
    using r by simp
  then show ?case
    unfolding split fold_append comp_apply r using upd by simp
qed

lemma fold_arraySet_range:
  assumes "1 \<le> b" and "b \<le> lc"
  shows "fold (\<lambda>j a. arraySet a j x) [int b - 1 .. int lc - 2]
           (replicate (lc - 1) None @ ys)
         = replicate (b - 1) None @ replicate (lc - b) (Some x) @ ys"
proof -
  have "int b + int (lc - b) - 2 = int lc - 2"
    using assms(2) by simp
  with fold_arraySet_upto[OF assms(1), of "lc - b" lc x ys] assms(2)
  show ?thesis by simp
qed

lemma stscExpand_snoc:
  assumes "1 \<le> firstChk e"
  shows "stscExpand (xs @ [e]) lastChk
         = stscExpand xs (firstChk e - 1) @ replicate (lastChk + 1 - firstChk e) (samPerChk e)"
proof (induction xs "firstChk e - 1" rule: stscExpand.induct)
  case 1
  show ?case by simp
next
  case (2 x)
  from assms show ?case by simp
next
  case (3 x x' xs)
  then show ?case by simp
qed

lemma fillChunks_expand:
  assumes "i \<le> length es" and "sorted (map firstChk (take i es))"
    and "\<forall>e \<in> set (take i es). 1 \<le> firstChk e \<and> firstChk e \<le> lc" and "1 \<le> lc"
  shows "\<exists>arr. fillChunks es i lc (replicate (lc - 1) None @ ys) = Returns arr \<and>
           map (map_option samCount) arr
             = replicate ((if i = 0 then lc else firstChk (es ! 0)) - 1) None
               @ map Some (stscExpand (take i es) (lc - 1))
               @ map (map_option samCount) ys"
  using assms
proof (induction i arbitrary: lc ys)
  case 0
  show ?case by simp
next
  case (Suc i)
  define e where "e = es ! i"
  define ce where "ce = \<lparr>samCount = samPerChk e, sdi = samDesIndex e\<rparr>"
  from Suc.prems(1) have i: "i < length es" by simp
  then have tk: "take (Suc i) es = take i es @ [e]"
    by (simp add: take_Suc_conv_app_nth e_def)
  from Suc.prems(3) tk have b: "1 \<le> firstChk e" "firstChk e \<le> lc" by simp_all
  from Suc.prems(2) tk have srt: "sorted (map firstChk (take i es))"
    and le: "\<forall>x \<in> set (take i es). firstChk x \<le> firstChk e"
    by (simp_all add: sorted_append)
  from Suc.prems(3) tk le
  have bnd: "\<forall>x \<in> set (take i es). 1 \<le> firstChk x \<and> firstChk x \<le> firstChk e"
    by simp
  have step: "fillChunks es (Suc i) lc (replicate (lc - 1) None @ ys)
              = fillChunks es i (firstChk e)
                  (replicate (firstChk e - 1) None @ replicate (lc - firstChk e) (Some ce) @ ys)"
    using i fold_arraySet_range[OF b, of ce ys] by (simp add: Let_def e_def ce_def)
  from Suc.IH[OF _ srt bnd b(1), of "replicate (lc - firstChk e) (Some ce) @ ys"] i
  obtain arr where arr: "fillChunks es i (firstChk e)
        (replicate (firstChk e - 1) None @ replicate (lc - firstChk e) (Some ce) @ ys)
        = Returns arr"
    and m: "map (map_option samCount) arr
             = replicate ((if i = 0 then firstChk e else firstChk (es ! 0)) - 1) None
               @ map Some (stscExpand (take i es) (firstChk e - 1))
               @ map (map_option samCount) (replicate (lc - firstChk e) (Some ce) @ ys)"
    by auto
  have first: "(if i = 0 then firstChk e else firstChk (es ! 0)) = firstChk (es ! 0)"
    by (simp add: e_def)
  have ex: "stscExpand (take (Suc i) es) (lc - 1)
            = stscExpand (take i es) (firstChk e - 1)
              @ replicate (lc - firstChk e) (samPerChk e)"
    unfolding tk stscExpand_snoc[OF b(1)] using Suc.prems(4) by simp
  show ?case
    unfolding step arr using m unfolding first ex by (simp add: ce_def)
qed

lemma no_holes:
  "map (map_option samCount) arr = map Some xs \<Longrightarrow>
   (\<forall>c \<in> set arr. c \<noteq> None) \<and> map chunkCount arr = xs"
proof (induction arr arbitrary: xs)
  case Nil
  then show ?case by simp
next
  case (Cons a arr)
  then obtain x xs' where xs: "xs = x # xs'" by (cases xs) auto
  with Cons.prems have "map_option samCount a = Some x"
    "map (map_option samCount) arr = map Some xs'" by simp_all
  with Cons.IH[of xs'] xs show ?case by (cases a) (auto simp: chunkCount_def)
qed

lemma walkChunks_total:
  "\<forall>c \<in> set cs. c \<noteq> None \<Longrightarrow> \<exists>r. walkChunks cs offsets sizes k acc = Returns r"
proof (induction cs arbitrary: k acc)
  case Nil
  show ?case by simp
next
  case (Cons c cs)
  then obtain e where "c = Some e" by auto
  with Cons show ?case by simp
qed

lemma fillChunks_covers:
  assumes "stscCovers es count"
  shows "\<exists>arr. fillChunks es (length es) (count + 1) (replicate count None) = Returns arr \<and>
           (\<forall>c \<in> set arr. c \<noteq> None) \<and> map chunkCount arr = stscExpand es count"
proof -
  from assms have srt: "sorted (map firstChk es)" by (simp add: stscCovers_def)
  have bnd: "\<forall>e \<in> set es. 1 \<le> firstChk e \<and> firstChk e \<le> count + 1"
  proof (cases "es = []")
    case True
    then show ?thesis by simp
  next
    case False
    with assms have h: "firstChk (hd es) = 1" and l: "firstChk (last es) \<le> count + 1"
      by (simp_all add: stscCovers_def)
    show ?thesis
    proof
      fix e assume e: "e \<in> set es"
      then obtain n where n: "n < length es" "es ! n = e" by (auto simp: in_set_conv_nth)
      from False have pos: "0 < length es" "length es - 1 < length es" by simp_all
      have "map firstChk es ! 0 \<le> map firstChk es ! n"
        using sorted_nth_mono[OF srt, of 0 n] n by simp
      then have "firstChk (es ! 0) \<le> firstChk (es ! n)"
        using n pos by (simp add: nth_map)
      moreover have "map firstChk es ! n \<le> map firstChk es ! (length es - 1)"
        using sorted_nth_mono[OF srt, of n "length es - 1"] n by simp
      then have "firstChk (es ! n) \<le> firstChk (es ! (length es - 1))"
        using n pos by (simp add: nth_map)
      ultimately show "1 \<le> firstChk e \<and> firstChk e \<le> count + 1"
        using h l n False by (simp add: hd_conv_nth last_conv_nth)
    qed
  qed
  from fillChunks_expand[of "length es" es "count + 1" "[]"] srt bnd
  obtain arr where arr: "fillChunks es (length es) (count + 1) (replicate count None) = Returns arr"
    and m: "map (map_option samCount) arr
             = replicate ((if length es = 0 then count + 1 else firstChk (es ! 0)) - 1) None
               @ map Some (stscExpand es count)"
    by auto
  have "(if length es = 0 then count + 1 else firstChk (es ! 0)) - 1 = 0"
    using assms by (auto simp: stscCovers_def hd_conv_nth)
  with m have "map (map_option samCount) arr = map Some (stscExpand es count)" by simp
  from no_holes[OF this] arr show ?thesis by blast
qed

lemma walkChunks_sizes:
  assumes "walkChunks cs offsets sizes k (acc, s) = Returns (t, s')"
    and "s = length acc"
    and "\<forall>i. i < length acc \<longrightarrow> sam_size (acc ! i) = jsNth sizes i"
  shows "\<forall>i. i < length t \<longrightarrow> sam_size (t ! i) = jsNth sizes i"
  using assms
proof (induction cs arbitrary: k acc s)
  case Nil
  then show ?case by simp
next
  case (Cons c cs)
  show ?case
  proof (cases c)
    case None
    with Cons.prems show ?thesis by simp
  next
    case (Some e)
    obtain ys where ys: "chunkSamples sizes k (samCount e) 0 (jsNth offsets k) (acc, s)
                          = (acc @ ys, s + samCount e)" and len: "length ys = samCount e"
      and el: "\<forall>l. l < samCount e \<longrightarrow> sam_size (ys ! l) = jsNth sizes (s + l)"
      using chunkSamples_run[of sizes k "samCount e" 0 "jsNth offsets k" acc s] by blast
    from Cons.prems(1) Some ys
    have rest: "walkChunks cs offsets sizes (Suc k) (acc @ ys, s + samCount e) = Returns (t, s')"
      by simp
    have l2: "s + samCount e = length (acc @ ys)" using Cons.prems(2) len by simp
    have "sam_size ((acc @ ys) ! i) = jsNth sizes i" if "i < length (acc @ ys)" for i
    proof (cases "i < length acc")
      case True
      with Cons.prems(3) show ?thesis by (simp add: nth_append)
    next
      case False
      with that len have "i - length acc < samCount e" by simp
      with el have "sam_size (ys ! (i - length acc)) = jsNth sizes (s + (i - length acc))"
        by blast
      with False Cons.prems(2) show ?thesis by (simp add: nth_append)
    qed
    then have "\<forall>i. i < length (acc @ ys) \<longrightarrow> sam_size ((acc @ ys) ! i) = jsNth sizes i"
      by blast
    from Cons.IH[OF rest l2 this] show ?thesis .
  qed
qed

lemma samDetails_sizes:
  assumes "samDetails stsc stsz stco = Returns (Some t)" and "i < length t"
  shows "sam_size (t ! i) = jsNth (samples stsz) i"
proof -
  from assms(1) obtain chk s' where
    w: "walkChunks chk (stco_entries stco) (samples stsz) 0 ([], 0) = Returns (t, s')"
    by (auto simp: samDetails_def Let_def andThen_def split: outcome.splits if_splits)
  from walkChunks_sizes[OF w] assms(2) show ?thesis by simp
qed

lemma walkChunks_order:
  assumes "walkChunks cs offsets sizes k (acc, s) = Returns (t, s')"
    and "sorted_wrt (\<lambda>a b. chkIndex a < chkIndex b \<or>
                           chkIndex a = chkIndex b \<and> indexInChk a < indexInChk b) acc"
    and "\<forall>a \<in> set acc. chkIndex a < k"
  shows "sorted_wrt (\<lambda>a b. chkIndex a < chkIndex b \<or>
                           chkIndex a = chkIndex b \<and> indexInChk a < indexInChk b) t"
  using assms
proof (induction cs arbitrary: k acc s)
  case Nil
  then show ?case by simp
next
  case (Cons c cs)
  show ?case
  proof (cases c)
    case None
    with Cons.prems show ?thesis by simp
  next
    case (Some e)
    obtain ys where ys: "chunkSamples sizes k (samCount e) 0 (jsNth offsets k) (acc, s)
                          = (acc @ ys, s + samCount e)" and len: "length ys = samCount e"
      and el: "\<forall>l. l < samCount e \<longrightarrow> chkIndex (ys ! l) = k \<and> indexInChk (ys ! l) = 0 + l"
      using chunkSamples_run[of sizes k "samCount e" 0 "jsNth offsets k" acc s] by blast
    from Cons.prems(1) Some ys
    have rest: "walkChunks cs offsets sizes (Suc k) (acc @ ys, s + samCount e) = Returns (t, s')"
      by simp
    have inys: "chkIndex y = k" if "y \<in> set ys" for y
      using that el len by (auto simp: in_set_conv_nth)
    have sys: "sorted_wrt (\<lambda>a b. chkIndex a < chkIndex b \<or>
                           chkIndex a = chkIndex b \<and> indexInChk a < indexInChk b) ys"
      unfolding sorted_wrt_iff_nth_less using el len by simp
    have s2: "sorted_wrt (\<lambda>a b. chkIndex a < chkIndex b \<or>
                           chkIndex a = chkIndex b \<and> indexInChk a < indexInChk b) (acc @ ys)"
      unfolding sorted_wrt_append using Cons.prems(2,3) sys inys by auto
    have b2: "\<forall>a \<in> set (acc @ ys). chkIndex a < Suc k"
      using Cons.prems(3) inys by auto
    from Cons.IH[OF rest s2 b2] show ?thesis .
  qed
qed

lemma samDetails_order:
  assumes "samDetails stsc stsz stco = Returns (Some t)" and "i < j" and "j < length t"
  shows "chkIndex (t ! i) < chkIndex (t ! j) \<or>
         chkIndex (t ! i) = chkIndex (t ! j) \<and> indexInChk (t ! i) < indexInChk (t ! j)"
proof -
  from assms(1) obtain chk s' where
    w: "walkChunks chk (stco_entries stco) (samples stsz) 0 ([], 0) = Returns (t, s')"
    by (auto simp: samDetails_def Let_def andThen_def split: outcome.splits if_splits)
  from walkChunks_order[OF w] have
    "sorted_wrt (\<lambda>a b. chkIndex a < chkIndex b \<or>
                           chkIndex a = chkIndex b \<and> indexInChk a < indexInChk b) t"
    by simp
  with assms(2,3) show ?thesis
    unfolding sorted_wrt_iff_nth_less by blast
qed

text \<open>
  Claim C3. When the \<^verbatim>\<open>stsc\<close> table covers the chunks of \<^verbatim>\<open>stco\<close> and its
  run-length expansion over \<^verbatim>\<open>stco.entryCount\<close> chunks amounts to exactly
  \<^verbatim>\<open>stsz.sampleCount\<close> samples, the resolver returns a table of
  \<^verbatim>\<open>stsz.sampleCount\<close> records, one per sample and in decode order: record \<open>i\<close>
  has the size \<^verbatim>\<open>stsz.samples[i]\<close>; the \<open>l\<close>-th sample of chunk \<open>k\<close> in the
  expansion is the record at the index that the samples of the chunks before \<open>k\<close>
  and \<open>l\<close> add up to, and carries \<open>k\<close> and \<open>l\<close>; and the records are in
  strictly ascending order of chunk and index in the chunk. (The first hypothesis holds
  of every table the \<^verbatim>\<open>stsc\<close> parser returns.)
\<close>

theorem samDetails_record_per_sample:
  assumes "stsc_entryCount stsc = length (stsc_entries stsc)"
    and "stscCovers (stsc_entries stsc) (stco_entryCount stco)"
    and "sum_list (stscExpand (stsc_entries stsc) (stco_entryCount stco)) = sampleCount stsz"
  shows "tableLength (samDetails stsc stsz stco) = Some (sampleCount stsz) \<and>
         (\<exists>t. samDetails stsc stsz stco = Returns (Some t) \<and>
              length t = sampleCount stsz \<and>
              (\<forall>i. i < sampleCount stsz \<longrightarrow> sam_size (t ! i) = jsNth (samples stsz) i) \<and>
              (\<forall>k l. k < length (stscExpand (stsc_entries stsc) (stco_entryCount stco)) \<longrightarrow>
                     l < stscExpand (stsc_entries stsc) (stco_entryCount stco) ! k \<longrightarrow>
                 chkIndex (t ! (sum_list (take k (stscExpand (stsc_entries stsc)
                                                    (stco_entryCount stco))) + l)) = k \<and>
                 indexInChk (t ! (sum_list (take k (stscExpand (stsc_entries stsc)
                                                      (stco_entryCount stco))) + l)) = l) \<and>
              (\<forall>i j. i < j \<longrightarrow> j < sampleCount stsz \<longrightarrow>
                 chkIndex (t ! i) < chkIndex (t ! j) \<or>
                 chkIndex (t ! i) = chkIndex (t ! j) \<and> indexInChk (t ! i) < indexInChk (t ! j)))"
proof -
  define X where "X = stscExpand (stsc_entries stsc) (stco_entryCount stco)"
  from fillChunks_covers[OF assms(2)] obtain arr where
    fill: "fillChunks (stsc_entries stsc) (length (stsc_entries stsc))
             (stco_entryCount stco + 1) (replicate (stco_entryCount stco) None) = Returns arr"
    and nh: "\<forall>c \<in> set arr. c \<noteq> None"
    and cnt: "map chunkCount arr = X"
    unfolding X_def by blast
  from walkChunks_total[OF nh, of "stco_entries stco" "samples stsz" 0 "([], 0)"]
  obtain t s' where w: "walkChunks arr (stco_entries stco) (samples stsz) 0 ([], 0) = Returns (t, s')"
    by (cases, auto)
  from walkChunks_prefix[OF w] cnt assms(3)
  have len: "length t = sampleCount stsz" and s': "s' = length t"
    unfolding X_def by auto
  from fill w s' assms(1) have sam: "samDetails stsc stsz stco = Returns (Some t)"
    by (simp add: samDetails_def Let_def andThen_def)
  from sam len have tl: "tableLength (samDetails stsc stsz stco) = Some (sampleCount stsz)"
    by (simp add: tableLength_def)
  have sz: "\<forall>i. i < sampleCount stsz \<longrightarrow> sam_size (t ! i) = jsNth (samples stsz) i"
    using samDetails_sizes[OF sam] len by simp
  have ord: "\<forall>i j. i < j \<longrightarrow> j < sampleCount stsz \<longrightarrow>
                 chkIndex (t ! i) < chkIndex (t ! j) \<or>
                 chkIndex (t ! i) = chkIndex (t ! j) \<and> indexInChk (t ! i) < indexInChk (t ! j)"
    using samDetails_order[OF sam] len by simp
  have pos: "chkIndex (t ! (sum_list (take k X) + l)) = k \<and>
             indexInChk (t ! (sum_list (take k X) + l)) = l"
    if k: "k < length X" and l: "l < X ! k" for k l
  proof -
    from cnt have la: "length arr = length X" by (metis length_map)
    with k have ka: "k < length arr" by simp
    with nh obtain c where c: "arr ! k = Some c" by (metis nth_mem not_None_eq)
    from cnt ka have "chunkCount (arr ! k) = X ! k" by (metis nth_map)
    with c l have lc: "l < samCount c" by simp
    have fs: "firstSamIndex arr k = sum_list (take k X)"
      unfolding firstSamIndex_def cnt[symmetric] by (simp add: take_map)
    from walkChunks_cursor[OF w ka c lc] fs show ?thesis by simp
  qed
  then have pos': "\<forall>k l. k < length X \<longrightarrow> l < X ! k \<longrightarrow>
                 chkIndex (t ! (sum_list (take k X) + l)) = k \<and>
                 indexInChk (t ! (sum_list (take k X) + l)) = l"
    by blast
  from sam len sz pos' ord
  have "\<exists>t. samDetails stsc stsz stco = Returns (Some t) \<and>
              length t = sampleCount stsz \<and>
              (\<forall>i. i < sampleCount stsz \<longrightarrow> sam_size (t ! i) = jsNth (samples stsz) i) \<and>
              (\<forall>k l. k < length X \<longrightarrow> l < X ! k \<longrightarrow>
                 chkIndex (t ! (sum_list (take k X) + l)) = k \<and>
                 indexInChk (t ! (sum_list (take k X) + l)) = l) \<and>
              (\<forall>i j. i < j \<longrightarrow> j < sampleCount stsz \<longrightarrow>
                 chkIndex (t ! i) < chkIndex (t ! j) \<or>
                 chkIndex (t ! i) = chkIndex (t ! j) \<and> indexInChk (t ! i) < indexInChk (t ! j))"
    by (intro exI[of _ t] conjI)
  with tl show ?thesis unfolding X_def by (intro conjI)
qed

theorem samDetails_record_per_sample_witness:
  "stsc_entryCount multi_stsc = length (stsc_entries multi_stsc) \<and>
   stscCovers (stsc_entries multi_stsc) (stco_entryCount multi_stco3) \<and>
   sum_list (stscExpand (stsc_entries multi_stsc) (stco_entryCount multi_stco3))
     = sampleCount multi_stsz \<and>
   tableLength (samDetails multi_stsc multi_stsz multi_stco3) = Some 5"
proof -
  have a: "stsc_entryCount multi_stsc = length (stsc_entries multi_stsc)"
    by (simp add: multi_stsc_def)
  have b: "stscCovers (stsc_entries multi_stsc) (stco_entryCount multi_stco3)"
    by (simp add: multi_stsc_def multi_stco3_def stscCovers_def)
  have c: "sum_list (stscExpand (stsc_entries multi_stsc) (stco_entryCount multi_stco3))
     = sampleCount multi_stsz"
    by code_simp
  have d: "sampleCount multi_stsz = 5" by (simp add: multi_stsz_def)
  from samDetails_record_per_sample[OF a b c]
  have "tableLength (samDetails multi_stsc multi_stsz multi_stco3) = Some (sampleCount multi_stsz)"
    by (rule conjunct1)
  with a b c d show ?thesis by simp
qed

text \<open>
  Claim C1, as amended. For the \<open>l\<close>-th sample of chunk \<open>k\<close>, at global index
  \<open>firstSamIndex k + l\<close>: its record carries the chunk index and the index in the
  chunk, its size is \<^verbatim>\<open>stsz.samples[globalSampleIndex]\<close>, and its file offset is the
  cursor, which starts at \<^verbatim>\<open>stco.entries[k]\<close> and advances by the size of each
  sample. The statement is for tables whose cursor stays within \<open>2^53\<close>, where the
  additions of the cursor are exact. For the multi-chunk scenario with the three chunk
  offsets \<open>[100, 300, 500]\<close> that its five samples fill, the offsets are
  \<open>[100, 150, 300, 350, 500]\<close>.
\<close>

theorem samDetails_cursor:
  assumes "fillChunks (stsc_entries stsc) (stsc_entryCount stsc) (stco_entryCount stco + 1)
             (replicate (stco_entryCount stco) None) = Returns chkEntris"
    and "samDetails stsc stsz stco = Returns (Some t)"
    and "list_all (\<lambda>e. exactInteger (js_add (sam_offset e) (sam_size e))) t"
    and "k < length chkEntris" and "chkEntris ! k = Some c" and "l < samCount c"
  shows "firstSamIndex chkEntris k + l < length t \<and>
         chkIndex (t ! (firstSamIndex chkEntris k + l)) = k \<and>
         indexInChk (t ! (firstSamIndex chkEntris k + l)) = l \<and>
         sam_size (t ! (firstSamIndex chkEntris k + l))
           = jsNth (samples stsz) (firstSamIndex chkEntris k + l) \<and>
         sam_offset (t ! (firstSamIndex chkEntris k + l)) =
           (if l = 0 then jsNth (stco_entries stco) k
            else js_add (sam_offset (t ! (firstSamIndex chkEntris k + l - 1)))
                        (sam_size (t ! (firstSamIndex chkEntris k + l - 1)))) \<and>
         tableOffsets (samDetails multi_stsc multi_stsz multi_stco3)
           = [Num 100, Num 150, Num 300, Num 350, Num 500]"
proof -
  from assms(1,2) obtain s' where
    w: "walkChunks chkEntris (stco_entries stco) (samples stsz) 0 ([], 0) = Returns (t, s')"
    by (auto simp: samDetails_def Let_def andThen_def split: outcome.splits if_splits)
  have ex3: "tableOffsets (samDetails multi_stsc multi_stsz multi_stco3)
           = [Num 100, Num 150, Num 300, Num 350, Num 500]"
    by code_simp
  from walkChunks_cursor[OF w assms(4,5,6)] ex3 show ?thesis by simp
qed

theorem samDetails_cursor_witness:
  "fillChunks (stsc_entries multi_stsc) (stsc_entryCount multi_stsc)
       (stco_entryCount multi_stco3 + 1) (replicate (stco_entryCount multi_stco3) None)
     = Returns [Some \<lparr>samCount = 2, sdi = 1\<rparr>, Some \<lparr>samCount = 2, sdi = 1\<rparr>,
                Some \<lparr>samCount = 1, sdi = 1\<rparr>] \<and>
   samDetails multi_stsc multi_stsz multi_stco3
     = Returns (Some
        [\<lparr>chkIndex = 0, indexInChk = 0, sam_offset = Num 100, sam_size = Num 50,
           dts = Undefined, cts = Undefined, pts = Undefined\<rparr>,
         \<lparr>chkIndex = 0, indexInChk = 1, sam_offset = Num 150, sam_size = Num 50,
           dts = Undefined, cts = Undefined, pts = Undefined\<rparr>,
         \<lparr>chkIndex = 1, indexInChk = 0, sam_offset = Num 300, sam_size = Num 50,
           dts = Undefined, cts = Undefined, pts = Undefined\<rparr>,
         \<lparr>chkIndex = 1, indexInChk = 1, sam_offset = Num 350, sam_size = Num 50,
           dts = Undefined, cts = Undefined, pts = Undefined\<rparr>,
         \<lparr>chkIndex = 2, indexInChk = 0, sam_offset = Num 500, sam_size = Num 50,
           dts = Undefined, cts = Undefined, pts = Undefined\<rparr>]) \<and>
   exactInteger (Num 550) \<and>
   (1 :: nat) < length [Some \<lparr>samCount = 2, sdi = 1\<rparr>, Some \<lparr>samCount = 2, sdi = 1\<rparr>,
                Some \<lparr>samCount = 1, sdi = 1\<rparr>] \<and>
   (1 :: nat) < samCount \<lparr>samCount = 2, sdi = 1\<rparr> \<and>
   tableOffsets (samDetails multi_stsc multi_stsz multi_stco3) ! 3
     = js_add (tableOffsets (samDetails multi_stsc multi_stsz multi_stco3) ! 2) (Num 50)"
proof -
  define chk where "chk = [Some \<lparr>samCount = 2, sdi = 1\<rparr>, Some \<lparr>samCount = 2, sdi = 1\<rparr>,
                Some \<lparr>samCount = (1::nat), sdi = (1::nat)\<rparr>]"
  define T where "T =
        [\<lparr>chkIndex = 0, indexInChk = 0, sam_offset = Num 100, sam_size = Num 50,
           dts = Undefined, cts = Undefined, pts = Undefined\<rparr>,
         \<lparr>chkIndex = 0, indexInChk = 1, sam_offset = Num 150, sam_size = Num 50,
           dts = Undefined, cts = Undefined, pts = Undefined\<rparr>,
         \<lparr>chkIndex = 1, indexInChk = 0, sam_offset = Num 300, sam_size = Num 50,
           dts = Undefined, cts = Undefined, pts = Undefined\<rparr>,
         \<lparr>chkIndex = 1, indexInChk = 1, sam_offset = Num 350, sam_size = Num 50,
           dts = Undefined, cts = Undefined, pts = Undefined\<rparr>,
         \<lparr>chkIndex = 2, indexInChk = 0, sam_offset = Num 500, sam_size = Num 50,
           dts = Undefined, cts = Undefined, pts = Undefined\<rparr>]"
  have f: "fillChunks (stsc_entries multi_stsc) (stsc_entryCount multi_stsc)
       (stco_entryCount multi_stco3 + 1) (replicate (stco_entryCount multi_stco3) None)
     = Returns chk"
    unfolding chk_def by code_simp
  have t: "samDetails multi_stsc multi_stsz multi_stco3 = Returns (Some T)"
    unfolding T_def by code_simp
  have x: "list_all (\<lambda>e. exactInteger (js_add (sam_offset e) (sam_size e))) T"
    by (simp add: T_def exactInteger_def)
  have x550: "exactInteger (Num 550)" by (simp add: exactInteger_def)
  have k: "1 < length chk" and c: "chk ! 1 = Some \<lparr>samCount = 2, sdi = 1\<rparr>"
    and l: "(1::nat) < samCount \<lparr>samCount = 2, sdi = 1\<rparr>"
    by (simp_all add: chk_def)
  have fs: "firstSamIndex chk 1 = 2"
    by (simp add: firstSamIndex_def chk_def chunkCount_def)
  from samDetails_cursor[OF f t x k c l] fs
  have "sam_offset (T ! 3) = js_add (sam_offset (T ! 2)) (sam_size (T ! 2))"
    by simp
  moreover have "sam_size (T ! 2) = Num 50" by (simp add: T_def)
  ultimately have "tableOffsets (samDetails multi_stsc multi_stsz multi_stco3) ! 3
     = js_add (tableOffsets (samDetails multi_stsc multi_stsz multi_stco3) ! 2) (Num 50)"
    unfolding t by (simp add: tableOffsets_def T_def)
  with f t x550 k l show ?thesis unfolding chk_def T_def by simp
qed

text \<open>
  Claim C1 as stated fails on its example: with four chunk offsets the resolver returns
  six records, the sixth at offset 600 (its size, read past the end of
  \<^verbatim>\<open>stsz.samples\<close>, is \<^verbatim>\<open>undefined\<close>).
\<close>

theorem samDetails_multi_chunk_counterexample:
  "samDetails multi_stsc multi_stsz multi_stco
     = Returns (Some
        [\<lparr>chkIndex = 0, indexInChk = 0, sam_offset = Num 100, sam_size = Num 50,
           dts = Undefined, cts = Undefined, pts = Undefined\<rparr>,
         \<lparr>chkIndex = 0, indexInChk = 1, sam_offset = Num 150, sam_size = Num 50,
           dts = Undefined, cts = Undefined, pts = Undefined\<rparr>,
         \<lparr>chkIndex = 1, indexInChk = 0, sam_offset = Num 300, sam_size = Num 50,
           dts = Undefined, cts = Undefined, pts = Undefined\<rparr>,
         \<lparr>chkIndex = 1, indexInChk = 1, sam_offset = Num 350, sam_size = Num 50,
           dts = Undefined, cts = Undefined, pts = Undefined\<rparr>,
         \<lparr>chkIndex = 2, indexInChk = 0, sam_offset = Num 500, sam_size = Num 50,
           dts = Undefined, cts = Undefined, pts = Undefined\<rparr>,
         \<lparr>chkIndex = 3, indexInChk = 0, sam_offset = Num 600, sam_size = Undefined,
           dts = Undefined, cts = Undefined, pts = Undefined\<rparr>]) \<and>
   tableOffsets (samDetails multi_stsc multi_stsz multi_stco)
     \<noteq> [Num 100, Num 150, Num 300, Num 350, Num 500]"
  by code_simp

section \<open>Verification of the sample-table parsers\<close>

lemma andThen_Returns:
  "andThen m f = Returns y \<longleftrightarrow> (\<exists>x. m = Returns x \<and> f x = Returns y)"
  by (cases m) (simp_all add: andThen_def)

lemma stszLoop_reads:
  "stszLoop v le n offset (sizes, filesize) = Returns (sizes', filesize') \<Longrightarrow>
   \<exists>xs. sizes' = sizes @ xs \<and> length xs = n \<and>
        (\<forall>i<n. getUint32 v (offset + 4 * i) (\<not> le) = Returns (xs ! i)) \<and>
        filesize' = filesize + sum_list xs"
proof (induction n arbitrary: offset sizes filesize)
  case 0
  then show ?case by simp
next
  case (Suc n)
  from Suc.prems obtain x where x: "getUint32 v offset (\<not> le) = Returns x"
    and rest: "stszLoop v le n (offset + 4) (sizes @ [x], filesize + x) = Returns (sizes', filesize')"
    by (auto simp: andThen_Returns)
  from Suc.IH[OF rest] obtain xs where xs: "sizes' = (sizes @ [x]) @ xs" "length xs = n"
    "\<forall>i<n. getUint32 v (offset + 4 + 4 * i) (\<not> le) = Returns (xs ! i)"
    "filesize' = filesize + x + sum_list xs"
    by blast
  have "getUint32 v (offset + 4 * i) (\<not> le) = Returns ((x # xs) ! i)" if "i < Suc n" for i
    using that x xs(3) by (cases i) (simp_all add: add.assoc)
  with xs show ?case
    by (intro exI[of _ "x # xs"]) simp
qed

lemma stscLoop_length:
  "stscLoop v le n offset es = Returns es' \<Longrightarrow> length es' = length es + n"
proof (induction n arbitrary: offset es)
  case 0
  then show ?case by simp
next
  case (Suc n)
  from Suc.prems obtain e where "stscLoop v le n (offset + 12) (es @ [e]) = Returns es'"
    by (auto simp: andThen_Returns)
  from Suc.IH[OF this] show ?case by simp
qed

lemma parseStsc_entryCount:
  "parseStsc le arrayBuffer dataOff dataSize = Returns stsc \<Longrightarrow>
   stsc_entryCount stsc = length (stsc_entries stsc)"
  by (auto simp: parseStsc_def andThen_Returns dest: stscLoop_length)

lemma stcoLoop_length:
  "stcoLoop v le n offset es = Returns es' \<Longrightarrow> length es' = length es + n"
proof (induction n arbitrary: offset es)
  case 0
  then show ?case by simp
next
  case (Suc n)
  from Suc.prems obtain e where "stcoLoop v le n (offset + 4) (es @ [e]) = Returns es'"
    by (auto simp: andThen_Returns)
  from Suc.IH[OF this] show ?case by simp
qed

lemma parseStco_entryCount:
  "parseStco le arrayBuffer dataOff dataSize = Returns stco \<Longrightarrow>
   stco_entryCount stco = length (stco_entries stco)"
  by (auto simp: parseStco_def andThen_Returns dest: stcoLoop_length)

lemma samDetails_ignores_sampleSize:
  "samples stsz' = samples stsz \<Longrightarrow> samDetails stsc stsz' stco = samDetails stsc stsz stco"
  by (simp add: samDetails_def)

lemma stszLoop_returns:
  "offset + 4 * n \<le> length v \<Longrightarrow> \<exists>r. stszLoop v le n offset acc = Returns r"
proof (induction n arbitrary: offset acc)
  case 0
  show ?case by simp
next
  case (Suc n)
  obtain sizes filesize where acc: "acc = (sizes, filesize)" by (cases acc)
  from Suc.prems have fit: "offset + 4 \<le> length v" and rest: "(offset + 4) + 4 * n \<le> length v"
    by simp_all
  from fit obtain x where x: "getUint32 v offset (\<not> le) = Returns x"
    by (simp add: getUint32_def)
  from Suc.IH[OF rest, of "(sizes @ [x], filesize + x)"] x acc show ?case
    by (simp add: andThen_def)
qed

lemma stszLoop_throws:
  "offset \<le> length v \<Longrightarrow> \<not> offset + 4 * n \<le> length v \<Longrightarrow>
   stszLoop v le n offset acc = Throws RangeError"
proof (induction n arbitrary: offset acc)
  case 0
  then show ?case by simp
next
  case (Suc n)
  obtain sizes filesize where acc: "acc = (sizes, filesize)" by (cases acc)
  show ?case
  proof (cases "offset + 4 \<le> length v")
    case True
    then obtain x where x: "getUint32 v offset (\<not> le) = Returns x"
      by (simp add: getUint32_def)
    from Suc.prems have "\<not> (offset + 4) + 4 * n \<le> length v" by simp
    from Suc.IH[OF True this, of "(sizes @ [x], filesize + x)"] x acc show ?thesis
      by (simp add: andThen_def)
  next
    case False
    then have "getUint32 v offset (\<not> le) = Throws RangeError"
      by (simp add: getUint32_def)
    with acc show ?thesis by (simp add: andThen_def)
  qed
qed

lemma parseStsz_unfold:
  assumes "newDataView arrayBuffer dataOff dataSize = Returns v"
    and "getUint32 v 12 (\<not> le) = Returns size0"
    and "getUint32 v 16 (\<not> le) = Returns count"
  shows "length v = dataSize \<and>
         parseStsz le arrayBuffer dataOff dataSize
         = andThen (stszLoop v le count 20 ([], 0)) (\<lambda>(sizes, filesize).
             Returns \<lparr>sampleSize = size0, sampleCount = count, samples = sizes,
                      total = filesize\<rparr>)"
proof -
  from assms(1) have len: "length v = dataSize"
    by (auto simp: newDataView_def split: if_splits)
  from assms(3) have "20 \<le> length v" by (simp add: getUint32_def split: if_splits)
  then obtain a b where "getUint8 v 8 = Returns a" "getUint32 v 8 (\<not> le) = Returns b"
    by (simp add: getUint8_def getUint32_def)
  with assms len show ?thesis
    by (simp add: parseStsz_def andThen_def)
qed

text \<open>
  Claim C5, as amended. On every \<^verbatim>\<open>stsz\<close> box whose two fields are readable, whatever
  the value of \<^verbatim>\<open>sampleSize\<close>, zero or not, the parser goes on to read
  \<^verbatim>\<open>sampleCount\<close> 32-bit sizes after the header. When the box holds them
  (\<open>20 + 4 * sampleCount\<close> bytes at least) the parser returns, with the two fields
  stored and \<^verbatim>\<open>samples\<close> the sizes read; when it does not, as in a constant-size box,
  which carries no array, the read leaves the box and the parser throws
  \<^verbatim>\<open>RangeError\<close>. The resolver gives the sample at global index \<open>i\<close> the size
  \<^verbatim>\<open>stsz.samples[i]\<close>, and its result does not depend on \<^verbatim>\<open>sampleSize\<close>.
\<close>

theorem parseStsz_reads_every_size:
  assumes "newDataView arrayBuffer dataOff dataSize = Returns v"
    and "getUint32 v 12 (\<not> le) = Returns size0"
    and "getUint32 v 16 (\<not> le) = Returns count"
  shows "(if 20 + 4 * count \<le> dataSize
          then \<exists>stsz. parseStsz le arrayBuffer dataOff dataSize = Returns stsz \<and>
                 sampleSize stsz = size0 \<and> sampleCount stsz = count \<and>
                 length (samples stsz) = count \<and>
                 (\<forall>i. i < count \<longrightarrow>
                    getUint32 v (20 + 4 * i) (\<not> le) = Returns (samples stsz ! i))
          else parseStsz le arrayBuffer dataOff dataSize = Throws RangeError) \<and>
         (\<forall>stsc stsz stco t i. samDetails stsc stsz stco = Returns (Some t) \<longrightarrow> i < length t \<longrightarrow>
            sam_size (t ! i) = jsNth (samples stsz) i) \<and>
         (\<forall>stsc stsz stco x. samDetails stsc (stsz\<lparr>sampleSize := x\<rparr>) stco
                          = samDetails stsc stsz stco)"
proof -
  from parseStsz_unfold[OF assms] have len: "length v = dataSize"
    and p: "parseStsz le arrayBuffer dataOff dataSize
         = andThen (stszLoop v le count 20 ([], 0)) (\<lambda>(sizes, filesize).
             Returns \<lparr>sampleSize = size0, sampleCount = count, samples = sizes,
                      total = filesize\<rparr>)"
    by simp_all
  from assms(3) have h: "20 \<le> length v" by (simp add: getUint32_def split: if_splits)
  have parse: "if 20 + 4 * count \<le> dataSize
          then \<exists>stsz. parseStsz le arrayBuffer dataOff dataSize = Returns stsz \<and>
                 sampleSize stsz = size0 \<and> sampleCount stsz = count \<and>
                 length (samples stsz) = count \<and>
                 (\<forall>i. i < count \<longrightarrow>
                    getUint32 v (20 + 4 * i) (\<not> le) = Returns (samples stsz ! i))
          else parseStsz le arrayBuffer dataOff dataSize = Throws RangeError"
  proof (cases "20 + 4 * count \<le> dataSize")
    case True
    with len have "20 + 4 * count \<le> length v" by simp
    from stszLoop_returns[OF this, of le "([], 0)"] obtain sizes filesize where
      l: "stszLoop v le count 20 ([], 0) = Returns (sizes, filesize)"
      by (cases, auto)
    from stszLoop_reads[OF l]
    have "\<exists>xs. sizes = [] @ xs \<and> length xs = count \<and>
        (\<forall>i<count. getUint32 v (20 + 4 * i) (\<not> le) = Returns (xs ! i)) \<and>
        filesize = 0 + sum_list xs" .
    then obtain xs where xs: "sizes = [] @ xs \<and> length xs = count \<and>
        (\<forall>i<count. getUint32 v (20 + 4 * i) (\<not> le) = Returns (xs ! i)) \<and>
        filesize = 0 + sum_list xs" ..
    then have eq: "sizes = xs" by simp
    from xs have ln: "length sizes = count" unfolding eq by (elim conjE)
    from xs have rd: "\<forall>i. i < count \<longrightarrow> getUint32 v (20 + 4 * i) (\<not> le) = Returns (sizes ! i)"
      unfolding eq by blast
    from p l have "parseStsz le arrayBuffer dataOff dataSize
         = Returns \<lparr>sampleSize = size0, sampleCount = count, samples = sizes,
                      total = filesize\<rparr>"
      by (simp add: andThen_def)
    with ln rd have "\<exists>stsz. parseStsz le arrayBuffer dataOff dataSize = Returns stsz \<and>
                 sampleSize stsz = size0 \<and> sampleCount stsz = count \<and>
                 length (samples stsz) = count \<and>
                 (\<forall>i. i < count \<longrightarrow>
                    getUint32 v (20 + 4 * i) (\<not> le) = Returns (samples stsz ! i))"
      by (intro exI[of _ "\<lparr>sampleSize = size0, sampleCount = count, samples = sizes,
                      total = filesize\<rparr>"]) simp
    with True show ?thesis by simp
  next
    case False
    with len have "\<not> 20 + 4 * count \<le> length v" by simp
    from stszLoop_throws[OF h this, of le "([], 0)"] p False show ?thesis
      by (simp add: andThen_def)
  qed
  have sz: "\<forall>stsc stsz stco t i. samDetails stsc stsz stco = Returns (Some t) \<longrightarrow> i < length t \<longrightarrow>
            sam_size (t ! i) = jsNth (samples stsz) i"
    using samDetails_sizes by blast
  have ign: "\<forall>stsc stsz stco x. samDetails stsc (stsz\<lparr>sampleSize := x\<rparr>) stco
                          = samDetails stsc stsz stco"
    by (intro allI, rule samDetails_ignores_sampleSize) simp
  from parse sz ign show ?thesis by (intro conjI)
qed

theorem parseStsz_reads_every_size_witness:
  "newDataView stsz_constant 0 20 = Returns stsz_constant \<and>
   getUint32 stsz_constant 12 (\<not> True) = Returns 7 \<and>
   getUint32 stsz_constant 16 (\<not> True) = Returns 1 \<and>
   \<not> 20 + 4 * (1 :: nat) \<le> 20 \<and>
   parseStsz True stsz_constant 0 20 = Throws RangeError \<and>
   newDataView stsz_explicit 0 24 = Returns stsz_explicit \<and>
   getUint32 stsz_explicit 12 (\<not> True) = Returns 7 \<and>
   getUint32 stsz_explicit 16 (\<not> True) = Returns 1 \<and>
   20 + 4 * (1 :: nat) \<le> 24 \<and>
   parseStsz True stsz_explicit 0 24 \<noteq> Throws RangeError"
proof -
  have v: "newDataView stsz_constant 0 20 = Returns stsz_constant"
    by (simp add: newDataView_def stsz_constant_def)
  have s: "getUint32 stsz_constant 12 (\<not> True) = Returns 7"
    and c: "getUint32 stsz_constant 16 (\<not> True) = Returns 1"
    by (simp_all add: getUint32_def stsz_constant_def)
  have v': "newDataView stsz_explicit 0 24 = Returns stsz_explicit"
    by (simp add: newDataView_def stsz_explicit_def)
  have s': "getUint32 stsz_explicit 12 (\<not> True) = Returns 7"
    and c': "getUint32 stsz_explicit 16 (\<not> True) = Returns 1"
    by (simp_all add: getUint32_def stsz_explicit_def)
  from parseStsz_reads_every_size[OF v s c]
  have a: "parseStsz True stsz_constant 0 20 = Throws RangeError" by simp
  from parseStsz_reads_every_size[OF v' s' c']
  have "\<exists>stsz. parseStsz True stsz_explicit 0 24 = Returns stsz" by auto
  then have b: "parseStsz True stsz_explicit 0 24 \<noteq> Throws RangeError" by auto
  from v s c a v' s' c' b show ?thesis by simp
qed

text \<open>
  Claim C5 as stated fails. On the constant-size box (\<^verbatim>\<open>sampleSize = 7\<close>, no array)
  the parser reads past the end of the box and throws. On a box with
  \<^verbatim>\<open>sampleSize = 7\<close> followed by the explicit size 9 it reads the array, and the
  resolver gives the sample the size 9, not 7.
\<close>

theorem parseStsz_constant_size_counterexample:
  "parseStsz True stsz_constant 0 20 = Throws RangeError \<and>
   parseStsz True stsz_explicit 0 24
     = Returns \<lparr>sampleSize = 7, sampleCount = 1, samples = [9], total = 9\<rparr> \<and>
   samDetails single_stsc \<lparr>sampleSize = 7, sampleCount = 1, samples = [9], total = 9\<rparr>
       single_stco
     = Returns (Some [\<lparr>chkIndex = 0, indexInChk = 0, sam_offset = Num 100, sam_size = Num 9,
                        dts = Undefined, cts = Undefined, pts = Undefined\<rparr>]) \<and>
   Num 9 \<noteq> Num 7"
proof -
  have a: "parseStsz True stsz_constant 0 20 = Throws RangeError"
    by (simp add: parseStsz_def andThen_def newDataView_def getUint32_def getUint8_def
        stsz_constant_def)
  have b: "parseStsz True stsz_explicit 0 24
     = Returns \<lparr>sampleSize = 7, sampleCount = 1, samples = [9], total = 9\<rparr>"
    by (simp add: parseStsz_def andThen_def newDataView_def getUint32_def getUint8_def
        stsz_explicit_def)
  have c: "samDetails single_stsc \<lparr>sampleSize = 7, sampleCount = 1, samples = [9], total = 9\<rparr>
       single_stco
     = Returns (Some [\<lparr>chkIndex = 0, indexInChk = 0, sam_offset = Num 100, sam_size = Num 9,
                        dts = Undefined, cts = Undefined, pts = Undefined\<rparr>])"
    by code_simp
  from a b c show ?thesis by simp
qed

section \<open>Verification of the timing resolver\<close>

lemma edit_sam: "samDetails single_stsc edit_stsz edit_stco
      = Returns (Some [\<lparr>chkIndex = 0, indexInChk = 0, sam_offset = Num 2048, sam_size = Num 1024,
                        dts = Undefined, cts = Undefined, pts = Undefined\<rparr>])"
  by (simp add: samDetails_def single_stsc_def edit_stsz_def edit_stco_def andThen_def
      upto.simps arraySet_def jsNth_def)

lemma edit_parseStts: "parseStts True edit_stts 0 24
      = Returns \<lparr>stts_entryCount = None,
                 stts_entries = [\<lparr>stts_samCount = 1, samDelta = 3000\<rparr>]\<rparr>"
  by (simp add: parseStts_def andThen_def newDataView_def getUint32_def getUint8_def edit_stts_def)

lemma edit_fields:
  "stscBox edit_demuxer = Some single_stsc" "stszBox edit_demuxer = Some edit_stsz"
  "stcoBox edit_demuxer = Some edit_stco" "elstBox edit_demuxer = Some edit_elst"
  "videoMetadata edit_demuxer = Some edit_meta"
  "sttsBox edit_demuxer = Some \<lparr>stts_entryCount = Some 1,
                       stts_entries = [\<lparr>stts_samCount = 1, samDelta = 3000\<rparr>]\<rparr>"
  "timescale edit_meta = Num 1000" "timescale_mdhd edit_meta = Num 90000"
  by (simp_all add: edit_demuxer_def edit_meta_def)

text \<open>
  Claim C2 (the code departs from it). On the edit-list scenario the claim gives the
  first sample \<open>dts = 0 - 9000 / 1000 * 90000 = -810000\<close>, which is what the
  \<^verbatim>\<open>dts\<close> expression yields when \<open>mvhdts\<close> is the movie timescale and \<open>mdhdts\<close>
  the media timescale. \<^verbatim>\<open>parseChunks\<close> passes the two timescales in the opposite
  order, and the sample gets \<open>dts = 0 - 9000 / 90000 * 1000 = -100\<close>. With the
  \<^verbatim>\<open>stts\<close> record as \<^verbatim>\<open>_parseStts\<close> returns it (no entry count) the loop does not
  run and the sample gets no \<^verbatim>\<open>dts\<close> at all.
\<close>

theorem parseChunks_tables_edit_shift:
  "parseChunks_tables edit_demuxer
     = Returns (Some [\<lparr>chkIndex = 0, indexInChk = 0, sam_offset = Num 2048, sam_size = Num 1024,
                        dts = Num (- 100), cts = Num 0, pts = Num (- 100)\<rparr>]) \<and>
   sampleDts 0 3000 0 (Num 9000) (Num 1000) (Num 90000) = Num (- 810000) \<and>
   parseStts True edit_stts 0 24
     = Returns \<lparr>stts_entryCount = None,
                 stts_entries = [\<lparr>stts_samCount = 1, samDelta = 3000\<rparr>]\<rparr> \<and>
   parseChunks_tables (edit_demuxer\<lparr>sttsBox := Some \<lparr>stts_entryCount = None,
                          stts_entries = [\<lparr>stts_samCount = 1, samDelta = 3000\<rparr>]\<rparr>\<rparr>)
     = Returns (Some [\<lparr>chkIndex = 0, indexInChk = 0, sam_offset = Num 2048, sam_size = Num 1024,
                        dts = Undefined, cts = Undefined, pts = Undefined\<rparr>])"
proof -
  have a: "parseChunks_tables edit_demuxer
     = Returns (Some [\<lparr>chkIndex = 0, indexInChk = 0, sam_offset = Num 2048, sam_size = Num 1024,
                        dts = Num (- 100), cts = Num 0, pts = Num (- 100)\<rparr>])"
    by (simp add: parseChunks_tables_def edit_fields edit_sam edit_elst_def
        andThen_def timeDetials_def sampleDts_def Let_def)
  have b: "sampleDts 0 3000 0 (Num 9000) (Num 1000) (Num 90000) = Num (- 810000)"
    by (simp add: sampleDts_def)
  have c: "parseChunks_tables (edit_demuxer\<lparr>sttsBox := Some \<lparr>stts_entryCount = None,
                          stts_entries = [\<lparr>stts_samCount = 1, samDelta = 3000\<rparr>]\<rparr>\<rparr>)
     = Returns (Some [\<lparr>chkIndex = 0, indexInChk = 0, sam_offset = Num 2048, sam_size = Num 1024,
                        dts = Undefined, cts = Undefined, pts = Undefined\<rparr>])"
    by (simp add: parseChunks_tables_def edit_fields edit_sam edit_elst_def
        andThen_def timeDetials_def)
  from a b c edit_parseStts show ?thesis by simp
qed

section \<open>Verification of the AVC configuration parser\<close>

lemma extends_refl: "extends Q this this"
  by (simp add: extends_def)

lemma extends_trans: "extends Q a b \<Longrightarrow> extends Q b c \<Longrightarrow> extends Q a c"
  by (fastforce simp: extends_def)

lemma keeps_lift: "keeps Q (lift m)"
  by (simp add: keeps_def lift_def extends_refl)

lemma keeps_emit: "Q e \<Longrightarrow> keeps Q (emit e)"
  by (simp add: keeps_def emit_def modify_def extends_def)

lemma keeps_call: "Q e \<Longrightarrow> keeps Q (call c e)"
  using keeps_emit[of Q e] by (simp add: keeps_def call_def extends_refl)

lemma keeps_setMeta: "keeps Q (setMeta f)"
  by (simp add: keeps_def setMeta_def extends_def split: option.splits)

lemma keeps_modify:
  "(\<And>this. trace (f this) = trace this \<and> naluLengthSize (f this) = naluLengthSize this)
   \<Longrightarrow> keeps Q (modify f)"
  by (simp add: keeps_def modify_def extends_def)

lemma keeps_seq:
  assumes "keeps Q m" and "\<And>x. keeps Q (f x)"
  shows "keeps Q (seq m f)"
  unfolding keeps_def
proof
  fix this
  obtain r this1 where m: "m this = (r, this1)" by (cases "m this")
  from assms(1) m have e1: "extends Q this this1" by (auto simp: keeps_def dest: spec[of _ this])
  show "extends Q this (snd (seq m f this))"
  proof (cases r)
    case (Throws e)
    with m e1 show ?thesis by (simp add: seq_def)
  next
    case (Returns x)
    from assms(2)[of x] have "extends Q this1 (snd (f x this1))" by (simp add: keeps_def)
    with e1 have "extends Q this (snd (f x this1))" by (rule extends_trans)
    with m Returns show ?thesis by (simp add: seq_def)
  qed
qed

lemma keeps_if: "keeps Q a \<Longrightarrow> keeps Q b \<Longrightarrow> keeps Q (if c then a else b)"
  by simp

lemma keeps_setMeta_state: "keeps Q (\<lambda>this. setMeta (F this) this)"
  by (simp add: keeps_def setMeta_def extends_def split: option.splits)

lemma keeps_call_state:
  "(\<And>x. Q (ev x)) \<Longrightarrow>
   keeps Q (\<lambda>this. if c this then call cb (ev (g this)) this else (Returns (), this))"
  by (simp add: keeps_def call_def emit_def modify_def extends_def)

lemma keeps_applySps:
  assumes "\<And>mi. Q (OnMediaInfo mi)"
  shows "keeps Q (applySps isComplete config sps)"
proof -
  have k: "keeps Q (modify (\<lambda>this. case videoMetadata this of None \<Rightarrow> this
                              | Some meta \<Rightarrow> this\<lparr>mediaInfo := G this meta\<rparr>))" for G
    by (rule keeps_modify) (simp split: option.splits)
  show ?thesis
    unfolding applySps_def Let_def
    by (intro keeps_seq keeps_if keeps_lift keeps_setMeta keeps_setMeta_state k
        keeps_call_state assms)
qed

lemma keeps_spsLoop:
  assumes "\<And>mi. Q (OnMediaInfo mi)"
  shows "keeps Q (spsLoop parseSPS isComplete v arrayBuffer dataOff le n i offset)"
proof (induction n arbitrary: i offset)
  case 0
  show ?case by (simp add: keeps_lift)
next
  case (Suc n)
  show ?case
    unfolding spsLoop.simps Let_def
    by (intro keeps_seq keeps_if keeps_lift keeps_applySps assms Suc.IH)
qed

lemma not_headError [simp]:
  "\<not> headError (OnMediaInfo mi)" "\<not> headError (LogW m)" "\<not> headError (LogV m)"
  "\<not> headError (OnTrackMetadata t meta)" "\<not> headError (OnDataAvailable a b)"
  "\<not> headError (OnError FORMAT_ERROR [S ''MP4: Invalid AVCDecoderConfigurationRecord: No SPS''])"
  "\<not> headError (OnError FORMAT_ERROR [S ''MP4: Invalid AVCDecoderConfigurationRecord: No PPS''])"
  by (simp_all add: headError_def invalidRecord_def strangeLength_def)

lemma keeps_stsdSps:
  "keeps (\<lambda>e. \<not> headError e) (\<lambda>this. stsdSps parseSPS isComplete v arrayBuffer dataOff this)"
proof -
  have "keeps (\<lambda>e. \<not> headError e)
          (seq (lift (getUint8 v 115)) (\<lambda>b.
           let spsNum = (b AND 0x1F) AND 0x1F
           in if spsNum = 0
              then seq (call onError
                          (OnError FORMAT_ERROR
                             [S ''MP4: Invalid AVCDecoderConfigurationRecord: No SPS'']))
                     (\<lambda>_. lift (Returns None))
              else
                seq (if spsNum > 1
                     then emit (LogW [S ''MP4: Strange AVCDecoderConfigurationRecord: SPS Count = '',
                                      V (Num (of_nat spsNum))])
                     else lift (Returns ())) (\<lambda>_.
                seq (spsLoop parseSPS isComplete v arrayBuffer dataOff le spsNum 0 116)
                  (\<lambda>offset. lift (Returns (Some offset))))))" for le
    unfolding Let_def
    by (intro keeps_seq keeps_if keeps_lift keeps_call keeps_emit keeps_spsLoop not_headError)
  then show ?thesis
    by (simp add: keeps_def stsdSps_def Let_def)
qed

lemma keeps_dispatch:
  "keeps (\<lambda>e. \<not> headError e)
     (\<lambda>this. if isInitialMetadataDispatched this
            then (if dispatch this
                     \<and> (track_length (audioTrack this) \<noteq> 0
                          \<or> track_length (videoTrack this) \<noteq> 0)
                  then call onDataAvailable
                         (OnDataAvailable (audioTrack this) (videoTrack this)) this
                  else (Returns (), this))
            else modify (\<lambda>this. this\<lparr>videoInitialMetadataDispatched := True\<rparr>) this)"
  by (simp add: keeps_def call_def emit_def modify_def extends_def)

lemma keeps_notify:
  "keeps (\<lambda>e. \<not> headError e)
     (\<lambda>this. case videoMetadata this of
                 None \<Rightarrow> (Throws TypeError, this)
               | Some meta \<Rightarrow>
                   seq (call onTrackMetadata (OnTrackMetadata ''video'' meta))
                     (\<lambda>_. lift (Returns True)) this)"
  by (simp add: keeps_def call_def emit_def modify_def extends_def seq_def lift_def
      split: option.splits)

lemma keeps_stsdPps:
  "keeps (\<lambda>e. \<not> headError e) (\<lambda>this. stsdPps v offset this)"
proof -
  have "keeps (\<lambda>e. \<not> headError e)
     (seq (lift (getUint8 v offset)) (\<lambda>ppsNum.
           if ppsNum = 0
           then seq (call onError
                       (OnError FORMAT_ERROR
                          [S ''MP4: Invalid AVCDecoderConfigurationRecord: No PPS'']))
                  (\<lambda>_. lift (Returns False))
           else
             seq (if ppsNum > 1
                  then emit (LogW [S ''MP4: Strange AVCDecoderConfigurationRecord: PPS Count = '',
                                   V (Num (of_nat ppsNum))])
                  else lift (Returns ())) (\<lambda>_.
             seq (lift (ppsLoop v le ppsNum (offset + 1))) (\<lambda>_.
             seq (\<lambda>this.
                    if isInitialMetadataDispatched this
                    then (if dispatch this
                             \<and> (track_length (audioTrack this) \<noteq> 0
                                  \<or> track_length (videoTrack this) \<noteq> 0)
                          then call onDataAvailable
                                 (OnDataAvailable (audioTrack this) (videoTrack this)) this
                          else (Returns (), this))
                    else modify (\<lambda>this. this\<lparr>videoInitialMetadataDispatched := True\<rparr>) this)
               (\<lambda>_.
             seq (modify (\<lambda>this. this\<lparr>dispatch := False\<rparr>)) (\<lambda>_ this.
               case videoMetadata this of
                 None \<Rightarrow> (Throws TypeError, this)
               | Some meta \<Rightarrow>
                   seq (call onTrackMetadata (OnTrackMetadata ''video'' meta))
                     (\<lambda>_. lift (Returns True)) this))))))" for le
    by (intro keeps_seq keeps_if keeps_lift keeps_call keeps_emit keeps_dispatch keeps_notify
        keeps_modify not_headError) simp
  then show ?thesis
    by (simp add: keeps_def stsdPps_def Let_def)
qed

lemma seq_lift: "seq (lift m) f this = (case m of Throws e \<Rightarrow> (Throws e, this) | Returns x \<Rightarrow> f x this)"
  by (simp add: seq_def lift_def split: outcome.splits)

lemma unchanged_lift: "unchanged (lift m)"
  by (simp add: unchanged_def lift_def)

lemma unchanged_seq_lift: "(\<And>x. unchanged (f x)) \<Longrightarrow> unchanged (seq (lift m) f)"
  by (cases m) (simp_all add: unchanged_def seq_lift)

lemma unchanged_if: "unchanged a \<Longrightarrow> unchanged b \<Longrightarrow> unchanged (if c then a else b)"
  by simp

lemma unchanged_None: "unchanged (seq (emit e) (\<lambda>_. lift (Returns None)))"
  by (simp add: unchanged_def seq_def emit_def modify_def lift_def)

lemma stsdEntry_state:
  assumes "fst (stsdEntry arrayBuffer dataOff dataSize this) = Returns (Some x)"
  shows "snd (stsdEntry arrayBuffer dataOff dataSize this) = this"
proof -
  have "unchanged (seq (lift (newDataView arrayBuffer dataOff dataSize)) (\<lambda>v.
         seq (lift (ReadBoxName arrayBuffer (dataOff + 4))) (\<lambda>box0.
         seq (lift (getUint8 v 8)) (\<lambda>version.
         seq (lift (getUint32 v 8 (\<not> le))) (\<lambda>flag.
         seq (lift (getUint32 v 12 (\<not> le))) (\<lambda>entryCount.
         seq (lift (ReadBoxName arrayBuffer (dataOff + 16 + 4))) (\<lambda>box_n.
           if toAscii box_n \<noteq> fcc_avc1
           then seq (emit (LogW [S ''Input file is not codec with h264!''])) (\<lambda>_.
                  lift (Returns None))
           else
             seq (lift (getUint32 v 16 (\<not> le))) (\<lambda>sz.
             seq (lift (getUint16 v 30 (\<not> le))) (\<lambda>dri.
             seq (lift (getUint16 v 48 (\<not> le))) (\<lambda>w.
             seq (lift (getUint16 v 50 (\<not> le))) (\<lambda>h.
             seq (lift (getUint16 v 64 (\<not> le))) (\<lambda>fc.
             seq (lift (getUint8 v 66)) (\<lambda>sl.
             seq (lift (newDataView arrayBuffer (dataOff + 66 + 1) sl)) (\<lambda>name.
             seq (lift (getUint16 v 98 (\<not> le))) (\<lambda>dp.
               lift (Returns (Some (v,
                 \<lparr>avc1 = \<lparr>avc1_size = sz, dataRefIndex = dri, avc1_width = w,
                            avc1_height = h, frameCount = fc, strlen = sl,
                            compreName = toAscii name, depth = dp\<rparr>\<rparr>))))))))))))))))))" for le
    by (intro unchanged_seq_lift unchanged_if unchanged_None unchanged_lift)
  then have "unchanged (\<lambda>this. stsdEntry arrayBuffer dataOff dataSize this)"
    by (simp add: unchanged_def stsdEntry_def Let_def)
  with assms show ?thesis by (simp add: unchanged_def)
qed

lemma stsdAvcC_result:
  assumes "getUint32 v 102 (\<not> littleEndian this) = Returns sz"
    and "newUint8Array arrayBuffer (dataOff + 102) sz = Returns avcCData"
    and "videoMetadata this = Some meta"
    and "115 \<le> length v"
    and "onError this"
  shows "stsdAvcC v arrayBuffer dataOff this =
     (let this1 = this\<lparr>trace := trace this @ [LogV [S ''Copied AVCDecoderConfigurationRecord!'']],
                       videoMetadata := Some (meta\<lparr>avcc := Some avcCData\<rparr>)\<rparr>;
          n = (unat (v ! 114) AND 3) + 1
      in if unat (v ! 110) \<noteq> 1 \<or> unat (v ! 111) = 0
         then (Returns False, this1\<lparr>trace := trace this1 @ [invalidRecord]\<rparr>)
         else if n \<noteq> 3 \<and> n \<noteq> 4
         then (Returns False, this1\<lparr>naluLengthSize := n,
                                   trace := trace this1 @ [strangeLength n]\<rparr>)
         else (Returns True, this1\<lparr>naluLengthSize := n\<rparr>))"
proof -
  from assms(4) have g: "getUint8 v 110 = Returns (unat (v ! 110))"
    "getUint8 v 111 = Returns (unat (v ! 111))" "getUint8 v 112 = Returns (unat (v ! 112))"
    "getUint8 v 113 = Returns (unat (v ! 113))" "getUint8 v 114 = Returns (unat (v ! 114))"
    by (simp_all add: getUint8_def)
  show ?thesis
    using assms(3,5)
    by (simp add: stsdAvcC_def Let_def seq_lift assms(1,2) g seq_def emit_def modify_def
        setMeta_def call_def lift_def invalidRecord_def strangeLength_def)
qed

lemma keeps_case_option:
  "keeps Q a \<Longrightarrow> (\<And>x. keeps Q (f x)) \<Longrightarrow> keeps Q (case opt of None \<Rightarrow> a | Some x \<Rightarrow> f x)"
  by (cases opt) simp_all

lemma keeps_stsd_rest:
  "keeps (\<lambda>e. \<not> headError e)
     (seq (stsdSps parseSPS isComplete v arrayBuffer dataOff) (\<lambda>next.
                 case next of
                   None \<Rightarrow> lift (Returns None)
                 | Some offset \<Rightarrow>
                     seq (stsdPps v offset) (\<lambda>ok.
                       if ok then lift (Returns (Some stsdDetail))
                       else lift (Returns None))))"
  by (intro keeps_seq keeps_case_option keeps_if keeps_lift keeps_stsdSps keeps_stsdPps)

lemma headError_simps [simp]: "headError invalidRecord" "headError (strangeLength n)"
  by (auto simp: headError_def)

lemma invalid_not_strange [simp]:
  "invalidRecord \<noteq> strangeLength n" "strangeLength n \<noteq> invalidRecord"
  "invalidRecord \<noteq> LogV m" "strangeLength n \<noteq> LogV m"
  by (simp_all add: invalidRecord_def strangeLength_def)

text \<open>
  Claim C7. Suppose \<^verbatim>\<open>_parseStsd\<close> reaches the \<^verbatim>\<open>avcC\<close> record: the sample entry is
  \<^verbatim>\<open>avc1\<close>, the record has been copied into the metadata, its head can be read and
  the error callback is installed. Then the error
  \<^verbatim>\<open>MP4: Invalid AVCDecoderConfigurationRecord\<close> is among the events of the call if and
  only if the configuration version is not 1 or the profile indication is 0, and in that
  case the method stops there (it returns \<^verbatim>\<open>undefined\<close>, that error is its last
  event and the length size is untouched). Otherwise the length size becomes the low two
  bits of the next byte plus one, and the error
  \<^verbatim>\<open>MP4: Strange NaluLengthSizeMinusOne: <n>\<close> is among the events if and only if that
  length size is neither 3 nor 4, in which case the method stops there.
\<close>

theorem parseStsd_avcC_validation:
  assumes "fst (stsdEntry arrayBuffer dataOff dataSize this) = Returns (Some (v, d))"
    and "getUint32 v 102 (\<not> littleEndian this) = Returns sz"
    and "newUint8Array arrayBuffer (dataOff + 102) sz = Returns avcCData"
    and "videoMetadata this = Some meta"
    and "115 \<le> length v"
    and "onError this"
    and "parseStsd parseSPS isComplete arrayBuffer dataOff dataSize this = (r, this')"
    and "confVer = unat (v ! 110)" and "avcProfile = unat (v ! 111)"
    and "n = (unat (v ! 114) AND 3) + 1"
  shows "(invalidRecord \<in> set (newEvents this this') \<longleftrightarrow> confVer \<noteq> 1 \<or> avcProfile = 0) \<and>
         (confVer \<noteq> 1 \<or> avcProfile = 0 \<longrightarrow>
            r = Returns None \<and>
            newEvents this this'
              = [LogV [S ''Copied AVCDecoderConfigurationRecord!''], invalidRecord] \<and>
            naluLengthSize this' = naluLengthSize this) \<and>
         (confVer = 1 \<and> avcProfile \<noteq> 0 \<longrightarrow>
            naluLengthSize this' = n \<and>
            (strangeLength n \<in> set (newEvents this this') \<longleftrightarrow> n \<noteq> 3 \<and> n \<noteq> 4) \<and>
            (n \<noteq> 3 \<and> n \<noteq> 4 \<longrightarrow>
               r = Returns None \<and>
               newEvents this this'
                 = [LogV [S ''Copied AVCDecoderConfigurationRecord!''], strangeLength n]))"
proof -
  define this1 where "this1 = this\<lparr>trace := trace this @ [LogV [S ''Copied AVCDecoderConfigurationRecord!'']],
                       videoMetadata := Some (meta\<lparr>avcc := Some avcCData\<rparr>)\<rparr>"
  have entry: "stsdEntry arrayBuffer dataOff dataSize this = (Returns (Some (v, d)), this)"
    using assms(1) stsdEntry_state[OF assms(1)] by (simp add: prod_eq_iff)
  have head: "stsdAvcC v arrayBuffer dataOff this =
     (if confVer \<noteq> 1 \<or> avcProfile = 0
         then (Returns False, this1\<lparr>trace := trace this1 @ [invalidRecord]\<rparr>)
         else if n \<noteq> 3 \<and> n \<noteq> 4
         then (Returns False, this1\<lparr>naluLengthSize := n,
                                   trace := trace this1 @ [strangeLength n]\<rparr>)
         else (Returns True, this1\<lparr>naluLengthSize := n\<rparr>))"
    using stsdAvcC_result[OF assms(2,3,4,5,6)] assms(8,9,10)
    by (simp add: Let_def this1_def)
  have tr1: "trace this1 = trace this @ [LogV [S ''Copied AVCDecoderConfigurationRecord!'']]"
    and nl1: "naluLengthSize this1 = naluLengthSize this"
    by (simp_all add: this1_def)
  consider (invalid) "confVer \<noteq> 1 \<or> avcProfile = 0"
    | (strange) "confVer = 1" "avcProfile \<noteq> 0" "n \<noteq> 3 \<and> n \<noteq> 4"
    | (valid) "confVer = 1" "avcProfile \<noteq> 0" "n = 3 \<or> n = 4"
    by blast
  then show ?thesis
  proof cases
    case invalid
    with assms(7) entry head
    have "r = Returns None" "this' = this1\<lparr>trace := trace this1 @ [invalidRecord]\<rparr>"
      by (simp_all add: parseStsd_def seq_def lift_def)
    with invalid tr1 nl1 show ?thesis
      by (auto simp: newEvents_def)
  next
    case strange
    with assms(7) entry head
    have "r = Returns None"
      "this' = this1\<lparr>naluLengthSize := n, trace := trace this1 @ [strangeLength n]\<rparr>"
      by (simp_all add: parseStsd_def seq_def lift_def)
    with strange tr1 nl1 show ?thesis
      by (auto simp: newEvents_def)
  next
    case valid
    define rest where "rest = seq (stsdSps parseSPS isComplete v arrayBuffer dataOff) (\<lambda>next.
                 case next of
                   None \<Rightarrow> lift (Returns None)
                 | Some offset \<Rightarrow>
                     seq (stsdPps v offset) (\<lambda>ok.
                       if ok then lift (Returns (Some d))
                       else lift (Returns None)))"
    from valid assms(7) entry head
    have "rest (this1\<lparr>naluLengthSize := n\<rparr>) = (r, this')"
      by (auto simp: parseStsd_def seq_def rest_def)
    moreover have "keeps (\<lambda>e. \<not> headError e) rest"
      unfolding rest_def by (rule keeps_stsd_rest)
    ultimately have "extends (\<lambda>e. \<not> headError e) (this1\<lparr>naluLengthSize := n\<rparr>) this'"
      by (auto simp: keeps_def dest: spec[of _ "this1\<lparr>naluLengthSize := n\<rparr>"])
    then obtain es where es: "trace this' = trace this1 @ es" "\<forall>e \<in> set es. \<not> headError e"
      and nl: "naluLengthSize this' = n"
      by (auto simp: extends_def)
    have new: "newEvents this this' = LogV [S ''Copied AVCDecoderConfigurationRecord!''] # es"
      using es(1) tr1 by (simp add: newEvents_def)
    have "invalidRecord \<notin> set es" "strangeLength n \<notin> set es"
      using es(2) by auto
    with new nl valid show ?thesis
      by auto
  qed
qed

lemma mvhd_result: "parseMvhd mvhd_box 0 32 readyDemuxer = (Returns (), headedDemuxer)"
  by (simp add: parseMvhd_def Let_def seq_lift newDataView_def mvhd_box_def getUint32_def
      readyDemuxer_def newDemuxer_def seq_def modify_def setMeta_def lift_def newTrack_def
      headedDemuxer_def mvhd_meta_def)

lemma stsd_len: "length stsd_box = 126"
  by (simp add: stsd_box_def)

lemma stsd_view: "newDataView stsd_box 0 126 = Returns stsd_box"
  by (simp add: newDataView_def stsd_len)

lemma headed_fields:
  "littleEndian headedDemuxer" "onError headedDemuxer" "onTrackMetadata headedDemuxer"
  "videoMetadata headedDemuxer = Some mvhd_meta"
  by (simp_all add: headedDemuxer_def readyDemuxer_def newDemuxer_def)

lemma stsd_entry:
  "stsdEntry stsd_box 0 126 headedDemuxer
     = (Returns (Some (stsd_box,
          \<lparr>avc1 = \<lparr>avc1_size = 110, dataRefIndex = 1, avc1_width = 320, avc1_height = 240,
                    frameCount = 1, strlen = 0, compreName = [], depth = 24\<rparr>\<rparr>)),
        headedDemuxer)"
  unfolding stsdEntry_def Let_def seq_lift stsd_view
  by (simp add: headed_fields ReadBoxName_def newDataView_def getUint8_def getUint16_def
      getUint32_def stsd_box_def toAscii_def fcc_avc1_def lift_def)

lemma stsd_head_bytes:
  "unat (stsd_box ! 110) = 1" "unat (stsd_box ! 111) = 100" "(unat (stsd_box ! 114) AND 3) + 1 = 4"
  by (simp_all add: stsd_box_def)

lemma stsd_avcC_size: "getUint32 stsd_box 102 (\<not> littleEndian headedDemuxer) = Returns 24"
  by (simp add: headed_fields getUint32_def stsd_box_def)

lemma stsd_avcC_copy: "newUint8Array stsd_box (0 + 102) 24 = Returns (take 24 (drop 102 stsd_box))"
  by (simp add: newUint8Array_def newDataView_def stsd_len)

theorem parseStsd_avcC_validation_witness:
  "fst (stsdEntry stsd_box 0 126 headedDemuxer)
     = Returns (Some (stsd_box,
          \<lparr>avc1 = \<lparr>avc1_size = 110, dataRefIndex = 1, avc1_width = 320, avc1_height = 240,
                    frameCount = 1, strlen = 0, compreName = [], depth = 24\<rparr>\<rparr>)) \<and>
   getUint32 stsd_box 102 (\<not> littleEndian headedDemuxer) = Returns 24 \<and>
   newUint8Array stsd_box (0 + 102) 24 = Returns (take 24 (drop 102 stsd_box)) \<and>
   videoMetadata headedDemuxer = Some mvhd_meta \<and>
   115 \<le> length stsd_box \<and>
   onError headedDemuxer \<and>
   unat (stsd_box ! 110) = 1 \<and> unat (stsd_box ! 111) \<noteq> 0 \<and>
   naluLengthSize (snd (parseStsd sps25 (\<lambda>mi. False) stsd_box 0 126 headedDemuxer)) = 4 \<and>
   invalidRecord \<notin> set (newEvents headedDemuxer
                         (snd (parseStsd sps25 (\<lambda>mi. False) stsd_box 0 126 headedDemuxer))) \<and>
   strangeLength 4 \<notin> set (newEvents headedDemuxer
                         (snd (parseStsd sps25 (\<lambda>mi. False) stsd_box 0 126 headedDemuxer)))"
proof -
  have e: "fst (stsdEntry stsd_box 0 126 headedDemuxer)
     = Returns (Some (stsd_box,
          \<lparr>avc1 = \<lparr>avc1_size = 110, dataRefIndex = 1, avc1_width = 320, avc1_height = 240,
                    frameCount = 1, strlen = 0, compreName = [], depth = 24\<rparr>\<rparr>))"
    by (simp add: stsd_entry)
  have l: "115 \<le> length stsd_box" by (simp add: stsd_len)
  have p: "parseStsd sps25 (\<lambda>mi. False) stsd_box 0 126 headedDemuxer
             = (fst (parseStsd sps25 (\<lambda>mi. False) stsd_box 0 126 headedDemuxer),
                snd (parseStsd sps25 (\<lambda>mi. False) stsd_box 0 126 headedDemuxer))"
    by simp
  from parseStsd_avcC_validation[OF e stsd_avcC_size stsd_avcC_copy headed_fields(4) l
      headed_fields(2) p stsd_head_bytes(1)[symmetric] stsd_head_bytes(2)[symmetric]
      stsd_head_bytes(3)[symmetric]]
  show ?thesis
    using e stsd_avcC_size stsd_avcC_copy headed_fields l stsd_head_bytes by simp
qed

lemma stsd_b114: "unat (stsd_box ! 114) AND 3 = 3"
  by (simp add: stsd_box_def)

lemma stsd_avcC_stage:
  "stsdAvcC stsd_box stsd_box 0 headedDemuxer
     = (Returns True,
        headedDemuxer\<lparr>trace := trace headedDemuxer
                         @ [LogV [S ''Copied AVCDecoderConfigurationRecord!'']],
                       videoMetadata := Some (mvhd_meta\<lparr>avcc := Some (take 24 (drop 102 stsd_box))\<rparr>),
                       naluLengthSize := 4\<rparr>)"
  using stsdAvcC_result[OF stsd_avcC_size stsd_avcC_copy headed_fields(4) _ headed_fields(2)]
  by (simp add: stsd_len stsd_head_bytes stsd_b114 Let_def)

lemma stsd_sps_bytes:
  "getUint8 stsd_box 115 = Returns 225" "(225 AND 31) AND 31 = (1::nat)"
  "getUint16 stsd_box 116 False = Returns 4"
  "newUint8Array stsd_box 118 4 = Returns [0x67, 0x64, 0, 0x1F]"
  by (simp_all add: getUint8_def getUint16_def newUint8Array_def newDataView_def stsd_box_def)

lemma afterHead_fields:
  "littleEndian afterHead" "onError afterHead" "onTrackMetadata afterHead"
  "videoMetadata afterHead = Some (mvhd_meta\<lparr>avcc := Some (take 24 (drop 102 stsd_box))\<rparr>)"
  by (simp_all add: afterHead_def headed_fields)

lemma stsd_sps_meta:
  "map_option refSampleDuration
     (videoMetadata (snd (stsdSps sps25 (\<lambda>mi. False) stsd_box stsd_box 0 afterHead))) = Some NaN \<and>
   fst (stsdSps sps25 (\<lambda>mi. False) stsd_box stsd_box 0 afterHead) = Returns (Some 122)"
  by (simp add: stsdSps_def Let_def seq_lift afterHead_fields stsd_sps_bytes
      seq_def lift_def emit_def modify_def setMeta_def call_def applySps_def
      sps25_def mvhd_meta_def emptyMeta_def)

lemma metaFixed_lift: "metaFixed (lift m)"
  by (simp add: metaFixed_def lift_def)

lemma metaFixed_emit: "metaFixed (emit e)"
  by (simp add: metaFixed_def emit_def modify_def)

lemma metaFixed_call: "metaFixed (call c e)"
  by (simp add: metaFixed_def call_def emit_def modify_def)

lemma metaFixed_modify:
  "(\<And>this. videoMetadata (f this) = videoMetadata this) \<Longrightarrow> metaFixed (modify f)"
  by (simp add: metaFixed_def modify_def)

lemma metaFixed_if: "metaFixed a \<Longrightarrow> metaFixed b \<Longrightarrow> metaFixed (if c then a else b)"
  by simp

lemma metaFixed_seq:
  assumes "metaFixed m" and "\<And>x. metaFixed (f x)"
  shows "metaFixed (seq m f)"
  unfolding metaFixed_def
proof
  fix this
  obtain r this1 where m: "m this = (r, this1)" by (cases "m this")
  with assms(1) have "videoMetadata this1 = videoMetadata this"
    by (auto simp: metaFixed_def dest: spec[of _ this])
  with m assms(2) show "videoMetadata (snd (seq m f this)) = videoMetadata this"
    by (cases r) (simp_all add: seq_def metaFixed_def)
qed

lemma metaFixed_dispatch:
  "metaFixed
     (\<lambda>this. if isInitialMetadataDispatched this
            then (if dispatch this
                     \<and> (track_length (audioTrack this) \<noteq> 0
                          \<or> track_length (videoTrack this) \<noteq> 0)
                  then call onDataAvailable
                         (OnDataAvailable (audioTrack this) (videoTrack this)) this
                  else (Returns (), this))
            else modify (\<lambda>this. this\<lparr>videoInitialMetadataDispatched := True\<rparr>) this)"
  by (simp add: metaFixed_def call_def emit_def modify_def)

lemma metaFixed_notify:
  "metaFixed
     (\<lambda>this. case videoMetadata this of
                 None \<Rightarrow> (Throws TypeError, this)
               | Some meta \<Rightarrow>
                   seq (call onTrackMetadata (OnTrackMetadata ''video'' meta))
                     (\<lambda>_. lift (Returns True)) this)"
  by (simp add: metaFixed_def call_def emit_def modify_def seq_def lift_def
      split: option.splits)

lemma stsdPps_meta: "videoMetadata (snd (stsdPps v offset this)) = videoMetadata this"
proof -
  have "metaFixed
     (seq (lift (getUint8 v offset)) (\<lambda>ppsNum.
           if ppsNum = 0
           then seq (call onError
                       (OnError FORMAT_ERROR
                          [S ''MP4: Invalid AVCDecoderConfigurationRecord: No PPS'']))
                  (\<lambda>_. lift (Returns False))
           else
             seq (if ppsNum > 1
                  then emit (LogW [S ''MP4: Strange AVCDecoderConfigurationRecord: PPS Count = '',
                                   V (Num (of_nat ppsNum))])
                  else lift (Returns ())) (\<lambda>_.
             seq (lift (ppsLoop v le ppsNum (offset + 1))) (\<lambda>_.
             seq (\<lambda>this.
                    if isInitialMetadataDispatched this
                    then (if dispatch this
                             \<and> (track_length (audioTrack this) \<noteq> 0
                                  \<or> track_length (videoTrack this) \<noteq> 0)
                          then call onDataAvailable
                                 (OnDataAvailable (audioTrack this) (videoTrack this)) this
                          else (Returns (), this))
                    else modify (\<lambda>this. this\<lparr>videoInitialMetadataDispatched := True\<rparr>) this)
               (\<lambda>_.
             seq (modify (\<lambda>this. this\<lparr>dispatch := False\<rparr>)) (\<lambda>_ this.
               case videoMetadata this of
                 None \<Rightarrow> (Throws TypeError, this)
               | Some meta \<Rightarrow>
                   seq (call onTrackMetadata (OnTrackMetadata ''video'' meta))
                     (\<lambda>_. lift (Returns True)) this))))))" for le
    by (intro metaFixed_seq metaFixed_if metaFixed_lift metaFixed_call metaFixed_emit
        metaFixed_dispatch metaFixed_notify metaFixed_modify) simp
  then show ?thesis
    by (simp add: metaFixed_def stsdPps_def Let_def)
qed

lemma seq_Returns: "m this = (Returns x, this') \<Longrightarrow> seq m f this = f x this'"
  by (simp add: seq_def)

lemma stsd_sps_state:
  "littleEndian (snd (stsdSps sps25 (\<lambda>mi. False) stsd_box stsd_box 0 afterHead))"
  "onTrackMetadata (snd (stsdSps sps25 (\<lambda>mi. False) stsd_box stsd_box 0 afterHead))"
  "\<not> isInitialMetadataDispatched (snd (stsdSps sps25 (\<lambda>mi. False) stsd_box stsd_box 0 afterHead))"
  "videoMetadata (snd (stsdSps sps25 (\<lambda>mi. False) stsd_box stsd_box 0 afterHead)) \<noteq> None"
  by (simp_all add: stsdSps_def Let_def seq_lift afterHead_fields stsd_sps_bytes
      seq_def lift_def emit_def modify_def setMeta_def call_def applySps_def
      sps25_def isInitialMetadataDispatched_def afterHead_def headedDemuxer_def
      readyDemuxer_def newDemuxer_def)

lemma stsd_pps_bytes:
  "getUint8 stsd_box 122 = Returns 1" "getUint16 stsd_box 123 False = Returns 1"
  by (simp_all add: getUint8_def getUint16_def stsd_box_def)

lemma stsd_pps_stage:
  assumes "littleEndian this" and "onTrackMetadata this"
    and "\<not> isInitialMetadataDispatched this" and "videoMetadata this \<noteq> None"
  shows "fst (stsdPps stsd_box 122 this) = Returns True"
  using assms
  by (auto simp: stsdPps_def Let_def seq_lift stsd_pps_bytes andThen_def seq_def lift_def
      modify_def call_def emit_def)

text \<open>
  Claim C6 (the code departs from it). \<^verbatim>\<open>_parseMvhd\<close> stores the movie timescale, here
  1000, in \<^verbatim>\<open>meta.timescale\<close>. \<^verbatim>\<open>_parseStsd\<close> computes the reference sample
  duration from \<^verbatim>\<open>meta.timescale_mvhd\<close>, a property nothing assigns: with a frame
  rate of 25/1 the claim gives \<open>1000 * (1 / 25) = 40\<close>, the code gives \<^verbatim>\<open>NaN\<close>.
\<close>

theorem parseStsd_refSampleDuration:
  "parseMvhd mvhd_box 0 32 readyDemuxer = (Returns (), headedDemuxer) \<and>
   map_option timescale (videoMetadata headedDemuxer) = Some (Num 1000) \<and>
   js_mul (Num 1000) (js_div (Num (fps_den (frame_rate (sps25 []))))
                             (Num (fps_num (frame_rate (sps25 []))))) = Num 40 \<and>
   fst (parseStsd sps25 (\<lambda>mi. False) stsd_box 0 126 headedDemuxer)
     = Returns (Some \<lparr>avc1 = \<lparr>avc1_size = 110, dataRefIndex = 1, avc1_width = 320,
                                avc1_height = 240, frameCount = 1, strlen = 0,
                                compreName = [], depth = 24\<rparr>\<rparr>) \<and>
   map_option refSampleDuration
     (videoMetadata (snd (parseStsd sps25 (\<lambda>mi. False) stsd_box 0 126 headedDemuxer)))
     = Some NaN"
proof -
  define this2 where "this2 = snd (stsdSps sps25 (\<lambda>mi. False) stsd_box stsd_box 0 afterHead)"
  have ts: "map_option timescale (videoMetadata headedDemuxer) = Some (Num 1000)"
    by (simp add: headed_fields mvhd_meta_def)
  have claim: "js_mul (Num 1000) (js_div (Num (fps_den (frame_rate (sps25 []))))
                             (Num (fps_num (frame_rate (sps25 []))))) = Num 40"
    by (simp add: sps25_def)
  have sps: "stsdSps sps25 (\<lambda>mi. False) stsd_box stsd_box 0 afterHead
               = (Returns (Some 122), this2)"
    using stsd_sps_meta by (simp add: this2_def prod_eq_iff)
  have dur: "map_option refSampleDuration (videoMetadata this2) = Some NaN"
    using stsd_sps_meta by (simp add: this2_def)
  have run: "parseStsd sps25 (\<lambda>mi. False) stsd_box 0 126 headedDemuxer
       = seq (stsdPps stsd_box 122) (\<lambda>ok.
            if ok then lift (Returns (Some
                 \<lparr>avc1 = \<lparr>avc1_size = 110, dataRefIndex = 1, avc1_width = 320,
                           avc1_height = 240, frameCount = 1, strlen = 0, compreName = [],
                           depth = 24\<rparr>\<rparr>))
            else lift (Returns None)) this2"
    by (simp only: parseStsd_def option.case prod.case not_True_eq_False if_False
        seq_Returns[where m = "stsdEntry stsd_box 0 126" and this = headedDemuxer,
          OF stsd_entry]
        seq_Returns[where m = "stsdAvcC stsd_box stsd_box 0" and this = headedDemuxer,
          OF stsd_avcC_stage[folded afterHead_def]]
        seq_Returns[where m = "stsdSps sps25 (\<lambda>mi. False) stsd_box stsd_box 0"
          and this = afterHead, OF sps])
  obtain this3 where pps: "stsdPps stsd_box 122 this2 = (Returns True, this3)"
    using stsd_pps_stage[OF stsd_sps_state, folded this2_def]
    by (cases "stsdPps stsd_box 122 this2") simp
  from stsdPps_meta[of stsd_box 122 this2] pps
  have m3: "videoMetadata this3 = videoMetadata this2" by simp
  from run pps m3 dur have
    "fst (parseStsd sps25 (\<lambda>mi. False) stsd_box 0 126 headedDemuxer)
     = Returns (Some \<lparr>avc1 = \<lparr>avc1_size = 110, dataRefIndex = 1, avc1_width = 320,
                                avc1_height = 240, frameCount = 1, strlen = 0,
                                compreName = [], depth = 24\<rparr>\<rparr>)"
    "map_option refSampleDuration
     (videoMetadata (snd (parseStsd sps25 (\<lambda>mi. False) stsd_box 0 126 headedDemuxer)))
     = Some NaN"
    by (simp_all add: seq_def lift_def)
  with mvhd_result ts claim show ?thesis by simp
qed

section \<open>Verification of the NAL framer\<close>

lemma naluLoop_returns:
  assumes "0 < lengthSize"
  shows "\<exists>r. naluLoop v arrayBuffer dataOff dataSize lengthSize le ts offset us len keyframe = Some r"
proof (induction "dataSize - offset" arbitrary: offset us len keyframe rule: less_induct)
  case less
  show ?case
  proof (cases "offset < dataSize \<and> \<not> offset + 4 \<ge> dataSize")
    case False
    then show ?thesis by (subst naluLoop.simps) auto
  next
    case True
    show ?thesis
    proof (cases "readNaluSize v offset lengthSize le")
      case (Throws e)
      with True show ?thesis by (subst naluLoop.simps) simp
    next
      case (Returns naluSize)
      have "dataSize - (offset + (lengthSize + naluSize)) < dataSize - offset"
        using True assms by linarith
      from less[OF this] True Returns show ?thesis
        by (subst naluLoop.simps) (simp split: outcome.splits)
    qed
  qed
qed

lemma unit_byte:
  assumes "newDataView arrayBuffer dataOff dataSize = Returns v"
    and "getUint8 v (offset + lengthSize) = Returns b"
    and "newUint8Array arrayBuffer (dataOff + offset) (lengthSize + naluSize) = Returns d"
    and "lengthSize < length d"
  shows "b = unat (d ! lengthSize)"
proof -
  from assms(1) have v: "v = take dataSize (drop dataOff arrayBuffer)"
    and fit: "dataOff + dataSize \<le> length arrayBuffer"
    by (auto simp: newDataView_def split: if_splits)
  from assms(2) have b: "b = unat (v ! (offset + lengthSize))" and lt: "offset + lengthSize < length v"
    by (auto simp: getUint8_def split: if_splits)
  from assms(3) have d: "d = take (lengthSize + naluSize) (drop (dataOff + offset) arrayBuffer)"
    and fit': "dataOff + offset + (lengthSize + naluSize) \<le> length arrayBuffer"
    by (auto simp: newUint8Array_def newDataView_def split: if_splits)
  from lt v fit have lt': "offset + lengthSize < dataSize" by simp
  have "v ! (offset + lengthSize) = arrayBuffer ! (dataOff + (offset + lengthSize))"
    using lt' fit unfolding v by simp
  moreover have "d ! lengthSize = arrayBuffer ! (dataOff + offset + lengthSize)"
    using assms(4) fit' unfolding d by simp
  ultimately show ?thesis using b by (simp add: add.assoc)
qed

lemma naluLoop_invariant:
  assumes "naluLoop v arrayBuffer dataOff dataSize lengthSize le ts offset us len keyframe = Some r"
  shows "newDataView arrayBuffer dataOff dataSize = Returns v \<longrightarrow>
         (\<forall>u \<in> set us. lengthSize < length (unit_data u) \<longrightarrow>
                        unit_type u = unat (unit_data u ! lengthSize) AND 0x1F) \<and>
         (keyframe \<longleftrightarrow> (\<exists>u \<in> set us. unit_type u = 5)) \<longrightarrow>
         (\<forall>us' len' keyframe' logged. r = Completed us' len' keyframe' logged \<longrightarrow>
            (\<forall>u \<in> set us'. lengthSize < length (unit_data u) \<longrightarrow>
                        unit_type u = unat (unit_data u ! lengthSize) AND 0x1F) \<and>
            (keyframe' \<longleftrightarrow> (\<exists>u \<in> set us'. unit_type u = 5)))"
proof -
  define inv where "inv = (\<lambda>lengthSize (us :: nalUnit list) keyframe.
      (\<forall>u \<in> set us. lengthSize < length (unit_data u) \<longrightarrow>
                        unit_type u = unat (unit_data u ! lengthSize) AND (0x1F::nat)) \<and>
      (keyframe \<longleftrightarrow> (\<exists>u \<in> set us. unit_type u = 5)))"
  define Q where "Q = (\<lambda>v arrayBuffer dataOff dataSize lengthSize (le::bool) (ts::jsval)
        (offset::nat) us (len::nat) keyframe r.
      newDataView arrayBuffer dataOff dataSize = Returns v \<longrightarrow> inv lengthSize us keyframe \<longrightarrow>
      (\<forall>us' len' keyframe' logged. r = Completed us' len' keyframe' logged \<longrightarrow>
         inv lengthSize us' keyframe'))"
  have "Q v arrayBuffer dataOff dataSize lengthSize le ts offset us len keyframe r"
  proof (rule naluLoop.raw_induct[where P = Q, rotated, OF assms])
    fix loop v arrayBuffer dataOff dataSize lengthSize le ts offset us len keyframe r
    assume IH: "\<And>v arrayBuffer dataOff dataSize lengthSize le ts offset us len keyframe y.
        loop v arrayBuffer dataOff dataSize lengthSize le ts offset us len keyframe = Some y \<Longrightarrow>
        Q v arrayBuffer dataOff dataSize lengthSize le ts offset us len keyframe y"
    and body: "(if offset < dataSize
      then if dataSize \<le> offset + 4
           then Some (Completed us len keyframe
                   [LogW [S ''Malformed Nalu near timestamp '', V ts,
                      S '', offset = '', V (Num (rat_of_nat offset)),
                      S '', dataSize = '', V (Num (rat_of_nat dataSize))]])
           else case readNaluSize v offset lengthSize le of
                Returns naluSize \<Rightarrow>
                  if int dataSize - int lengthSize < int naluSize
                  then Some (Abandoned
                          [LogW [S ''Malformed Nalus near timestamp '', V ts,
                             S '', NaluSize > DataSize!'']])
                  else case getUint8 v (offset + lengthSize) of
                       Returns b \<Rightarrow>
                         case newUint8Array arrayBuffer (dataOff + offset)
                               (lengthSize + naluSize) of
                         Returns d \<Rightarrow>
                           loop v arrayBuffer dataOff dataSize lengthSize le ts
                            (offset + (lengthSize + naluSize))
                            (us @ [\<lparr>unit_type = b AND 31, unit_data = d\<rparr>])
                            (len + length d)
                            (if b AND 31 = 5 then True else keyframe)
                         | Throws e \<Rightarrow> Some (Raised e)
                       | Throws e \<Rightarrow> Some (Raised e)
                | Throws e \<Rightarrow> Some (Raised e)
      else Some (Completed us len keyframe [])) = Some r"
    show "Q v arrayBuffer dataOff dataSize lengthSize le ts offset us len keyframe r"
      unfolding Q_def
    proof (intro impI allI)
      fix us' len' keyframe' logged
      assume view: "newDataView arrayBuffer dataOff dataSize = Returns v"
        and inv: "inv lengthSize us keyframe"
        and r: "r = Completed us' len' keyframe' logged"
      show "inv lengthSize us' keyframe'"
      proof (cases "offset < dataSize \<and> \<not> dataSize \<le> offset + 4")
        case False
        with body r have "us' = us" "keyframe' = keyframe"
          by (auto split: if_splits)
        with inv show ?thesis by simp
      next
        case True
        with body r obtain naluSize b d where
          n: "readNaluSize v offset lengthSize le = Returns naluSize"
          and b: "getUint8 v (offset + lengthSize) = Returns b"
          and d: "newUint8Array arrayBuffer (dataOff + offset) (lengthSize + naluSize) = Returns d"
          and rec: "loop v arrayBuffer dataOff dataSize lengthSize le ts
                      (offset + (lengthSize + naluSize))
                      (us @ [\<lparr>unit_type = b AND 0x1F, unit_data = d\<rparr>])
                      (len + length d)
                      (if b AND 0x1F = 5 then True else keyframe) = Some r"
          by (auto split: if_splits outcome.splits)
        have new: "lengthSize < length d \<longrightarrow> b AND 0x1F = unat (d ! lengthSize) AND 0x1F"
          using unit_byte[OF view b d] by simp
        have inv': "inv lengthSize (us @ [\<lparr>unit_type = b AND 0x1F, unit_data = d\<rparr>])
                      (if b AND 0x1F = 5 then True else keyframe)"
          using inv new unfolding inv_def by auto
        from IH[OF rec] view inv' r show ?thesis unfolding Q_def by blast
      qed
    qed
  qed
  then show ?thesis unfolding Q_def inv_def by blast
qed

lemma naluLoop_step:
  assumes "offset + 4 < dataSize"
    and "readNaluSize v offset lengthSize le = Returns naluSize"
    and "\<not> int naluSize > int dataSize - int lengthSize"
    and "getUint8 v (offset + lengthSize) = Returns b"
    and "newUint8Array arrayBuffer (dataOff + offset) (lengthSize + naluSize) = Returns d"
  shows "naluLoop v arrayBuffer dataOff dataSize lengthSize le ts offset us len keyframe
         = naluLoop v arrayBuffer dataOff dataSize lengthSize le ts
             (offset + (lengthSize + naluSize))
             (us @ [\<lparr>unit_type = b AND 0x1F, unit_data = d\<rparr>])
             (len + length d)
             (if b AND 0x1F = 5 then True else keyframe)"
  using assms by (subst naluLoop.simps) simp

lemma naluLoop_end:
  "\<not> offset < dataSize \<Longrightarrow>
   naluLoop v arrayBuffer dataOff dataSize lengthSize le ts offset us len keyframe
     = Some (Completed us len keyframe [])"
  by (subst naluLoop.simps) simp




text \<open>
  Claim C9. For the sample that a call of the framer appends to the video track, the
  keyframe flag is set if and only if one of its units has type 5; and the type of a
  unit is the low 5 bits of the byte after its length prefix.
\<close>

theorem parseAVCVideoData_keyframe:
  assumes "parseAVCVideoData arrayBuffer dataOff dataSize ts this = Some (res, this')"
    and "track_samples (videoTrack this') = track_samples (videoTrack this) @ [s]"
  shows "(isKeyframe s \<longleftrightarrow> (\<exists>u \<in> set (units s). unit_type u = 5)) \<and>
         (\<forall>u \<in> set (units s). naluLengthSize this < length (unit_data u) \<longrightarrow>
            unit_type u = unat (unit_data u ! naluLengthSize this) AND 0x1F)"
proof -
  from assms obtain v where v: "newDataView arrayBuffer dataOff dataSize = Returns v"
    by (auto simp: parseAVCVideoData_def split: outcome.splits)
  from assms v obtain r where
    r: "naluLoop v arrayBuffer dataOff dataSize (naluLengthSize this) (littleEndian this)
          ts 0 [] 0 False = Some r"
    by (auto simp: parseAVCVideoData_def split: option.splits)
  from assms v r obtain us len keyframe logged where
    c: "r = Completed us len keyframe logged"
    and s: "s = \<lparr>units = us, sample_length = len, isKeyframe = keyframe,
                 avc_dts = ts, avc_cts = 0, avc_pts = ts\<rparr>"
    by (cases r) (auto simp: parseAVCVideoData_def split: if_splits)
  from naluLoop_invariant[OF r] v c
  have "(\<forall>u \<in> set us. naluLengthSize this < length (unit_data u) \<longrightarrow>
            unit_type u = unat (unit_data u ! naluLengthSize this) AND 0x1F) \<and>
        (keyframe \<longleftrightarrow> (\<exists>u \<in> set us. unit_type u = 5))"
    by simp
  with s show ?thesis by simp
qed

lemma ready_fields:
  "naluLengthSize readyDemuxer = 4" "littleEndian readyDemuxer"
  "videoTrack readyDemuxer = newTrack 1" "trace readyDemuxer = []"
  by (simp_all add: readyDemuxer_def newDemuxer_def)








text \<open>
  The two-unit samples \<^verbatim>\<open>idr_sample\<close> (types 1 and 5) and \<^verbatim>\<open>plain_sample\<close> (types 1 and 1)
  framed on \<^verbatim>\<open>readyDemuxer\<close>: the first is appended as a keyframe, the second is not.
\<close>

lemma idr_bytes:
  "newDataView idr_sample 0 11 = Returns idr_sample"
  "readNaluSize idr_sample 0 4 True = Returns 2"
  "getUint8 idr_sample 4 = Returns 65"
  "newUint8Array idr_sample 0 6 = Returns [0, 0, 0, 2, 0x41, 0x9A]"
  "readNaluSize idr_sample 6 4 True = Returns 1"
  "getUint8 idr_sample 10 = Returns 101"
  "newUint8Array idr_sample 6 5 = Returns [0, 0, 0, 1, 0x65]"
  by (simp_all add: newDataView_def newUint8Array_def readNaluSize_def getUint32_def
      getUint8_def andThen_def idr_sample_def)

lemma idr_loop:
  "naluLoop idr_sample idr_sample 0 11 4 True Undefined 0 [] 0 False
     = Some (Completed [\<lparr>unit_type = 1, unit_data = [0, 0, 0, 2, 0x41, 0x9A]\<rparr>,
                        \<lparr>unit_type = 5, unit_data = [0, 0, 0, 1, 0x65]\<rparr>] 11 True [])"
proof -
  have l1: "0 + length [0, 0, 0, 2, 0x41, 0x9A :: u8] = 6"
    and l2: "6 + length [0, 0, 0, 1, 0x65 :: u8] = 11"
    and t1: "(65 :: nat) AND 0x1F = 1" and t2: "(101 :: nat) AND 0x1F = 5"
    by simp_all
  have "naluLoop idr_sample idr_sample 0 11 4 True Undefined 0 [] 0 False
      = naluLoop idr_sample idr_sample 0 11 4 True Undefined (0 + (4 + 2))
          ([] @ [\<lparr>unit_type = 65 AND 0x1F, unit_data = [0, 0, 0, 2, 0x41, 0x9A]\<rparr>])
          (0 + length [0, 0, 0, 2, 0x41, 0x9A :: u8])
          (if (65 :: nat) AND 0x1F = 5 then True else False)"
    by (rule naluLoop_step) (simp_all add: idr_bytes)
  also have "\<dots> = naluLoop idr_sample idr_sample 0 11 4 True Undefined 6
          [\<lparr>unit_type = 1, unit_data = [0, 0, 0, 2, 0x41, 0x9A]\<rparr>] 6 False"
    unfolding l1 t1 by simp
  also have "\<dots> = naluLoop idr_sample idr_sample 0 11 4 True Undefined (6 + (4 + 1))
          ([\<lparr>unit_type = 1, unit_data = [0, 0, 0, 2, 0x41, 0x9A]\<rparr>]
           @ [\<lparr>unit_type = 101 AND 0x1F, unit_data = [0, 0, 0, 1, 0x65]\<rparr>])
          (6 + length [0, 0, 0, 1, 0x65 :: u8])
          (if (101 :: nat) AND 0x1F = 5 then True else False)"
    by (rule naluLoop_step) (simp_all add: idr_bytes)
  also have "\<dots> = naluLoop idr_sample idr_sample 0 11 4 True Undefined 11
          [\<lparr>unit_type = 1, unit_data = [0, 0, 0, 2, 0x41, 0x9A]\<rparr>,
           \<lparr>unit_type = 5, unit_data = [0, 0, 0, 1, 0x65]\<rparr>] 11 True"
    unfolding l2 t2 by simp
  also have "\<dots> = Some (Completed [\<lparr>unit_type = 1, unit_data = [0, 0, 0, 2, 0x41, 0x9A]\<rparr>,
                        \<lparr>unit_type = 5, unit_data = [0, 0, 0, 1, 0x65]\<rparr>] 11 True [])"
    by (rule naluLoop_end) simp
  finally show ?thesis .
qed


lemma idr_framed:
  "parseAVCVideoData idr_sample 0 11 Undefined readyDemuxer
     = Some (Returns (), framed idr_framed_sample)"
  by (simp add: parseAVCVideoData_def idr_bytes(1) ready_fields idr_loop newTrack_def
      framed_def idr_framed_sample_def)

lemma plain_bytes:
  "newDataView plain_sample 0 11 = Returns plain_sample"
  "readNaluSize plain_sample 0 4 True = Returns 2"
  "getUint8 plain_sample 4 = Returns 65"
  "newUint8Array plain_sample 0 6 = Returns [0, 0, 0, 2, 0x41, 0x9A]"
  "readNaluSize plain_sample 6 4 True = Returns 1"
  "getUint8 plain_sample 10 = Returns 65"
  "newUint8Array plain_sample 6 5 = Returns [0, 0, 0, 1, 0x41]"
  by (simp_all add: newDataView_def newUint8Array_def readNaluSize_def getUint32_def
      getUint8_def andThen_def plain_sample_def)

lemma plain_loop:
  "naluLoop plain_sample plain_sample 0 11 4 True Undefined 0 [] 0 False
     = Some (Completed [\<lparr>unit_type = 1, unit_data = [0, 0, 0, 2, 0x41, 0x9A]\<rparr>,
                        \<lparr>unit_type = 1, unit_data = [0, 0, 0, 1, 0x41]\<rparr>] 11 False [])"
proof -
  have l1: "0 + length [0, 0, 0, 2, 0x41, 0x9A :: u8] = 6"
    and l2: "6 + length [0, 0, 0, 1, 0x41 :: u8] = 11"
    and t1: "(65 :: nat) AND 0x1F = 1" and t2: "(65 :: nat) AND 0x1F = 1"
    by simp_all
  have "naluLoop plain_sample plain_sample 0 11 4 True Undefined 0 [] 0 False
      = naluLoop plain_sample plain_sample 0 11 4 True Undefined (0 + (4 + 2))
          ([] @ [\<lparr>unit_type = 65 AND 0x1F, unit_data = [0, 0, 0, 2, 0x41, 0x9A]\<rparr>])
          (0 + length [0, 0, 0, 2, 0x41, 0x9A :: u8])
          (if (65 :: nat) AND 0x1F = 5 then True else False)"
    by (rule naluLoop_step) (simp_all add: plain_bytes)
  also have "\<dots> = naluLoop plain_sample plain_sample 0 11 4 True Undefined 6
          [\<lparr>unit_type = 1, unit_data = [0, 0, 0, 2, 0x41, 0x9A]\<rparr>] 6 False"
    unfolding l1 t1 by simp
  also have "\<dots> = naluLoop plain_sample plain_sample 0 11 4 True Undefined (6 + (4 + 1))
          ([\<lparr>unit_type = 1, unit_data = [0, 0, 0, 2, 0x41, 0x9A]\<rparr>]
           @ [\<lparr>unit_type = 65 AND 0x1F, unit_data = [0, 0, 0, 1, 0x41]\<rparr>])
          (6 + length [0, 0, 0, 1, 0x41 :: u8])
          (if (65 :: nat) AND 0x1F = 5 then True else False)"
    by (rule naluLoop_step) (simp_all add: plain_bytes)
  also have "\<dots> = naluLoop plain_sample plain_sample 0 11 4 True Undefined 11
          [\<lparr>unit_type = 1, unit_data = [0, 0, 0, 2, 0x41, 0x9A]\<rparr>,
           \<lparr>unit_type = 1, unit_data = [0, 0, 0, 1, 0x41]\<rparr>] 11 False"
    unfolding l2 t2 by simp
  also have "\<dots> = Some (Completed [\<lparr>unit_type = 1, unit_data = [0, 0, 0, 2, 0x41, 0x9A]\<rparr>,
                        \<lparr>unit_type = 1, unit_data = [0, 0, 0, 1, 0x41]\<rparr>] 11 False [])"
    by (rule naluLoop_end) simp
  finally show ?thesis .
qed

lemma plain_framed:
  "parseAVCVideoData plain_sample 0 11 Undefined readyDemuxer
     = Some (Returns (), framed plain_framed_sample)"
  by (simp add: parseAVCVideoData_def plain_bytes(1) ready_fields plain_loop newTrack_def
      framed_def plain_framed_sample_def)

lemma framed_samples:
  "track_samples (videoTrack (framed s)) = track_samples (videoTrack readyDemuxer) @ [s]"
  by (simp add: framed_def ready_fields newTrack_def)

theorem parseAVCVideoData_keyframe_witness:
  "parseAVCVideoData idr_sample 0 11 Undefined readyDemuxer
     = Some (Returns (), framed idr_framed_sample) \<and>
   track_samples (videoTrack (framed idr_framed_sample))
     = track_samples (videoTrack readyDemuxer) @ [idr_framed_sample] \<and>
   isKeyframe idr_framed_sample \<and>
   5 \<in> set (map unit_type (units idr_framed_sample)) \<and>
   parseAVCVideoData plain_sample 0 11 Undefined readyDemuxer
     = Some (Returns (), framed plain_framed_sample) \<and>
   track_samples (videoTrack (framed plain_framed_sample))
     = track_samples (videoTrack readyDemuxer) @ [plain_framed_sample] \<and>
   \<not> isKeyframe plain_framed_sample \<and>
   5 \<notin> set (map unit_type (units plain_framed_sample))"
proof -
  have i: "isKeyframe idr_framed_sample" by (simp add: idr_framed_sample_def)
  have p: "\<not> isKeyframe plain_framed_sample" by (simp add: plain_framed_sample_def)
  from parseAVCVideoData_keyframe[OF idr_framed framed_samples] i
  have "\<exists>u \<in> set (units idr_framed_sample). unit_type u = 5" by blast
  then have i5: "5 \<in> set (map unit_type (units idr_framed_sample))" by force
  from parseAVCVideoData_keyframe[OF plain_framed framed_samples] p
  have "\<not> (\<exists>u \<in> set (units plain_framed_sample). unit_type u = 5)" by blast
  then have p5: "5 \<notin> set (map unit_type (units plain_framed_sample))" by force
  from idr_framed plain_framed framed_samples i p i5 p5 show ?thesis by blast
qed

end
